theory Spec2Isabelle
  imports Main
begin

section \<open>The regular-expression object of the host language\<close>

text \<open>
  \<^verbatim>\<open>server.js\<close> builds its matcher with \<^verbatim>\<open>new RegExp(pattern, flags)\<close> and drives it with
  \<^verbatim>\<open>lineRegex.exec(line)\<close>. The pattern engine itself belongs to the host, not to the
  repository, so a compiled expression carries it as a field: \<open>matcher r s i = Some e\<close> says
  that the pattern matches \<open>s\<close> when anchored at index \<open>i\<close>, the match ending just before
  index \<open>e\<close>. The two flags that change what \<^verbatim>\<open>exec\<close> does with \<^verbatim>\<open>lastIndex\<close> are fields too.
  Strings are sequences of code units; indices count code units, as \<^verbatim>\<open>match.index\<close> does.
  The flags \<^verbatim>\<open>i\<close>, \<^verbatim>\<open>m\<close> and \<^verbatim>\<open>s\<close> only change what the pattern matches and so live inside
  \<open>matcher\<close>. The scan steps by one code unit; the stepping by code points of the flags
  \<^verbatim>\<open>u\<close> and \<^verbatim>\<open>v\<close> is not modelled.
\<close>

record regexp =
  global :: bool
  sticky :: bool
  matcher :: "string \<Rightarrow> nat \<Rightarrow> nat option"

text \<open>\<^verbatim>\<open>s.substring(i, e)\<close> for \<open>i \<le> e\<close>: the text of a match.\<close>

definition substring :: "string \<Rightarrow> nat \<Rightarrow> nat \<Rightarrow> string" where
  "substring s i e = take (e - i) (drop i s)"

text \<open>
  The scan inside \<^verbatim>\<open>exec\<close>: try the pattern at \<open>i\<close>; on failure a sticky expression
  gives up, any other one moves one index to the right; past the end of the string the
  search fails.
\<close>

function scanFrom :: "(string \<Rightarrow> nat \<Rightarrow> nat option) \<Rightarrow> bool \<Rightarrow> string \<Rightarrow> nat \<Rightarrow> (nat \<times> nat) option" where
  "scanFrom m stick s i =
     (if length s < i then None
      else (case m s i of
              Some e \<Rightarrow> Some (i, e)
            | None \<Rightarrow> if stick then None else scanFrom m stick s (i + 1)))"
  by pat_completeness auto
termination
  by (relation "measure (\<lambda>(m, stick, s, i). length s + 1 - i)") auto

declare scanFrom.simps [simp del]

text \<open>
  \<^verbatim>\<open>exec\<close> as a function of the expression, the string and the current \<^verbatim>\<open>lastIndex\<close>.
  It returns the match (\<^verbatim>\<open>null\<close> is \<open>None\<close>; a match is its \<^verbatim>\<open>index\<close> and its text
  \<^verbatim>\<open>match[0]\<close>) together with the new \<^verbatim>\<open>lastIndex\<close>. Without \<^verbatim>\<open>g\<close> and \<^verbatim>\<open>y\<close> the search
  starts at 0 and \<^verbatim>\<open>lastIndex\<close> is left alone; with one of them the search starts at
  \<^verbatim>\<open>lastIndex\<close>, which becomes the end of the match, or 0 when there is none.
\<close>

definition exec :: "regexp \<Rightarrow> string \<Rightarrow> nat \<Rightarrow> (nat \<times> string) option \<times> nat" where
  "exec r s lastIndex =
     (let useLast = (global r \<or> sticky r);
          start = (if useLast then lastIndex else 0)
      in case scanFrom (matcher r) (sticky r) s start of
           None \<Rightarrow> (None, if useLast then 0 else lastIndex)
         | Some (i, e) \<Rightarrow> (Some (i, substring s i e), if useLast then e else lastIndex))"

section \<open>Result data\<close>

record occurrence =
  matchText :: string
  column :: nat

record lineResult =
  lineNumber :: nat
  content :: string
  matches :: "occurrence list"

record fileResult =
  file_ :: string
  matchCount :: nat
  results :: "lineResult list"

section \<open>Matching one line\<close>

text \<open>
  The loop of both handlers,
  \<^verbatim>\<open>while ((match = lineRegex.exec(line)) !== null) lineMatches.push({matchText: match[0], column: match.index + 1})\<close>.
  Nothing in the loop bounds the number of rounds, so the model is a partial function:
  \<open>None\<close> is a loop that never exits.
\<close>

partial_function (option) execLoop :: "regexp \<Rightarrow> string \<Rightarrow> nat \<Rightarrow> occurrence list \<Rightarrow> occurrence list option" where
  "execLoop lineRegex line lastIndex lineMatches =
     (case exec lineRegex line lastIndex of
        (None, lastIndex') \<Rightarrow> Some lineMatches
      | (Some (index, text), lastIndex') \<Rightarrow>
          execLoop lineRegex line lastIndex'
            (lineMatches @ [\<lparr>matchText = text, column = index + 1\<rparr>]))"

declare execLoop.simps [code]

text \<open>A fresh expression starts with \<^verbatim>\<open>lastIndex\<close> 0 and the loop with an empty array.\<close>

definition findOccurrences :: "regexp \<Rightarrow> string \<Rightarrow> occurrence list option" where
  "findOccurrences lineRegex line = execLoop lineRegex line 0 []"

section \<open>The host: file system, paths and the RegExp constructor\<close>

text \<open>
  What \<^verbatim>\<open>fs.statSync\<close> finds at a path, with what reading or listing it gives.
  \<open>Inl\<close> carries the message of the error the call throws.
\<close>

datatype node =
    File "string + string"
  | Dir "(string \<times> node) list"
  | DirDenied string
  | Other "string + string"
  | NoStat string

text \<open>
  \<open>File r\<close> is a regular file and \<open>r\<close> the outcome of \<^verbatim>\<open>readFileSync(p, "utf-8")\<close>;
  \<open>Dir files\<close> is a directory with its entries in the order \<^verbatim>\<open>readdirSync\<close> lists them;
  \<open>DirDenied msg\<close> is a directory that \<^verbatim>\<open>readdirSync\<close> cannot list; \<open>Other r\<close> is neither a
  regular file nor a directory; \<open>NoStat msg\<close> is a path on which \<^verbatim>\<open>statSync\<close> throws
  (nothing there, or a dangling link). The tree is a snapshot and it is finite.
\<close>

fun isDirectory :: "node \<Rightarrow> bool" where
  "isDirectory (Dir files) = True"
| "isDirectory (DirDenied msg) = True"
| "isDirectory n = False"

fun isFile :: "node \<Rightarrow> bool" where
  "isFile (File r) = True"
| "isFile n = False"

fun statSync :: "node \<Rightarrow> string + unit" where
  "statSync (NoStat msg) = Inl msg"
| "statSync n = Inr ()"

fun readFileSync :: "node \<Rightarrow> string + string" where
  "readFileSync (File r) = r"
| "readFileSync (Other r) = r"
| "readFileSync (Dir files) = Inl ''EISDIR: illegal operation on a directory, read''"
| "readFileSync (DirDenied msg) = Inl ''EISDIR: illegal operation on a directory, read''"
| "readFileSync (NoStat msg) = Inl msg"

text \<open>
  The host as the handlers see it: \<^verbatim>\<open>path.resolve\<close> (which depends on the working
  directory), the file system as a function from resolved paths to nodes, and the
  \<^verbatim>\<open>RegExp\<close> constructor, which throws a \<^verbatim>\<open>SyntaxError\<close> (\<open>Inl\<close> of its message) on an
  invalid pattern or flag string.
\<close>

record env =
  resolve :: "string \<Rightarrow> string"
  nodeAt :: "string \<Rightarrow> node"
  newRegExp :: "string \<Rightarrow> string \<Rightarrow> string + regexp"

definition existsSync :: "env \<Rightarrow> string \<Rightarrow> bool" where
  "existsSync env p = (case nodeAt env p of NoStat msg \<Rightarrow> False | _ \<Rightarrow> True)"

text \<open>\<^verbatim>\<open>file.startsWith(".")\<close>.\<close>

definition startsWithDot :: "string \<Rightarrow> bool" where
  "startsWithDot name = (case name of [] \<Rightarrow> False | c # cs \<Rightarrow> c = CHR ''.'')"

text \<open>
  \<^verbatim>\<open>path.join(dir, file)\<close> for a resolved directory and the name of one of its entries (POSIX
  separator).
\<close>

definition pathJoin :: "string \<Rightarrow> string \<Rightarrow> string" where
  "pathJoin dir name = (if dir = ''/'' then dir @ name else dir @ ''/'' @ name)"

text \<open>
  \<^verbatim>\<open>path.extname(file)\<close> for an entry name (which holds no separator): the suffix from the
  last dot; empty when there is no dot, when the last dot is the first character, and for
  the name \<^verbatim>\<open>..\<close>.
\<close>

fun lastDot :: "string \<Rightarrow> nat option" where
  "lastDot [] = None"
| "lastDot (c # cs) =
     (case lastDot cs of
        Some i \<Rightarrow> Some (i + 1)
      | None \<Rightarrow> if c = CHR ''.'' then Some 0 else None)"

definition extname :: "string \<Rightarrow> string" where
  "extname name =
     (case lastDot name of
        None \<Rightarrow> []
      | Some i \<Rightarrow> if i = 0 \<or> name = ''..'' then [] else drop i name)"

text \<open>\<^verbatim>\<open>fileContent.split("\n")\<close>: never empty, a trailing line feed gives a last empty line.\<close>

fun splitLines :: "string \<Rightarrow> string list" where
  "splitLines [] = [[]]"
| "splitLines (c # cs) =
     (if c = CHR 0x0A then [] # splitLines cs
      else (case splitLines cs of
              [] \<Rightarrow> [[c]]
            | l # ls \<Rightarrow> (c # l) # ls))"

section \<open>Single-file search\<close>

record fileSummary =
  s_file :: string
  s_pattern :: string
  s_flags :: string
  s_totalMatches :: nat
  s_results :: "lineResult list"

text \<open>
  A handler returns an object with the serialised summary, or one with a message and
  \<^verbatim>\<open>isError: true\<close>.
\<close>

datatype 'a response = Summary 'a | IsError string

text \<open>
  \<^verbatim>\<open>lines.forEach((line, index) => ...)\<close> of \<^verbatim>\<open>handleRegexSearch\<close>, with the array
  \<^verbatim>\<open>matches\<close> as accumulator. \<open>Some (Inl msg)\<close> is a throw out of the loop, \<open>None\<close> a loop that
  never ends.
\<close>

fun forEachLine :: "(string \<Rightarrow> string \<Rightarrow> string + regexp) \<Rightarrow> string \<Rightarrow> string \<Rightarrow> string list
    \<Rightarrow> nat \<Rightarrow> lineResult list \<Rightarrow> (string + lineResult list) option" where
  "forEachLine mk pattern flags [] index ms = Some (Inr ms)"
| "forEachLine mk pattern flags (line # rest) index ms =
     (case mk pattern flags of
        Inl msg \<Rightarrow> Some (Inl msg)
      | Inr lineRegex \<Rightarrow>
          (case findOccurrences lineRegex line of
             None \<Rightarrow> None
           | Some lineMatches \<Rightarrow>
               forEachLine mk pattern flags rest (index + 1)
                 (if length lineMatches > 0
                  then ms @ [\<lparr>lineNumber = index + 1, content = line, matches = lineMatches\<rparr>]
                  else ms)))"

text \<open>\<^verbatim>\<open>xs.reduce((sum, m) => sum + m.matches.length, 0)\<close>.\<close>

definition sumMatches :: "lineResult list \<Rightarrow> nat" where
  "sumMatches xs = foldl (\<lambda>sum m. sum + length (matches m)) 0 xs"

definition handleRegexSearch :: "env \<Rightarrow> string \<Rightarrow> string \<Rightarrow> string option \<Rightarrow> fileSummary response option" where
  "handleRegexSearch env pattern filePath flagsArg =
     (let flags = (case flagsArg of None \<Rightarrow> ''g'' | Some f \<Rightarrow> f);
          resolvedPath = resolve env filePath
      in if \<not> existsSync env resolvedPath
         then Some (IsError (''File not found: '' @ resolvedPath))
         else (case readFileSync (nodeAt env resolvedPath) of
                 Inl msg \<Rightarrow> Some (IsError (''Error: '' @ msg))
               | Inr fileContent \<Rightarrow>
                   (case newRegExp env pattern flags of
                      Inl msg \<Rightarrow> Some (IsError (''Error: '' @ msg))
                    | Inr regex \<Rightarrow>
                        (case forEachLine (newRegExp env) pattern flags (splitLines fileContent) 0 [] of
                           None \<Rightarrow> None
                         | Some (Inl msg) \<Rightarrow> Some (IsError (''Error: '' @ msg))
                         | Some (Inr ms) \<Rightarrow>
                             Some (Summary \<lparr>s_file = resolvedPath, s_pattern = pattern,
                                     s_flags = flags, s_totalMatches = sumMatches ms,
                                     s_results = ms\<rparr>)))))"

section \<open>Directory search\<close>

record directorySummary =
  directory :: string
  d_pattern :: string
  d_flags :: string
  extensions :: "string list"
  filesMatched :: nat
  totalMatches :: nat
  d_results :: "fileResult list"

text \<open>
  The line loop of \<^verbatim>\<open>searchDirectory\<close>: as above, and it also adds to the counter
  \<^verbatim>\<open>totalMatches\<close> of the enclosing handler. The loop runs inside a \<^verbatim>\<open>try\<close>, so the result
  records whether it threw (\<open>Some msg\<close> in the first component) and the state it left.
\<close>

fun forEachLineDir :: "(string \<Rightarrow> string \<Rightarrow> string + regexp) \<Rightarrow> string \<Rightarrow> string \<Rightarrow> string list
    \<Rightarrow> nat \<Rightarrow> lineResult list \<Rightarrow> nat \<Rightarrow> (string option \<times> lineResult list \<times> nat) option" where
  "forEachLineDir mk pattern flags [] index fileMatches totalM = Some (None, fileMatches, totalM)"
| "forEachLineDir mk pattern flags (line # rest) index fileMatches totalM =
     (case mk pattern flags of
        Inl msg \<Rightarrow> Some (Some msg, fileMatches, totalM)
      | Inr lineRegex \<Rightarrow>
          (case findOccurrences lineRegex line of
             None \<Rightarrow> None
           | Some lineMatches \<Rightarrow>
               if length lineMatches > 0
               then forEachLineDir mk pattern flags rest (index + 1)
                      (fileMatches @ [\<lparr>lineNumber = index + 1, content = line, matches = lineMatches\<rparr>])
                      (totalM + length lineMatches)
               else forEachLineDir mk pattern flags rest (index + 1) fileMatches totalM))"

text \<open>
  The \<^verbatim>\<open>try { ... } catch (error) { }\<close> around one file: the state is the array \<^verbatim>\<open>results\<close>
  and the counter \<^verbatim>\<open>totalMatches\<close>. Whatever is thrown inside is dropped; what was added to
  the counter before the throw stays.
\<close>

definition tryScanFile :: "(string \<Rightarrow> string \<Rightarrow> string + regexp) \<Rightarrow> string \<Rightarrow> string \<Rightarrow> string
    \<Rightarrow> node \<Rightarrow> fileResult list \<times> nat \<Rightarrow> (fileResult list \<times> nat) option" where
  "tryScanFile mk pattern flags filePath n st =
     (case readFileSync n of
        Inl msg \<Rightarrow> Some st
      | Inr fileContent \<Rightarrow>
          (case forEachLineDir mk pattern flags (splitLines fileContent) 0 [] (snd st) of
             None \<Rightarrow> None
           | Some (Some msg, fileMatches, totalM) \<Rightarrow> Some (fst st, totalM)
           | Some (None, fileMatches, totalM) \<Rightarrow>
               Some (if length fileMatches > 0
                     then fst st @ [\<lparr>file_ = filePath, matchCount = sumMatches fileMatches,
                                      results = fileMatches\<rparr>]
                     else fst st,
                     totalM)))"

text \<open>
  \<^verbatim>\<open>searchDirectory(dir)\<close> and the callback of its \<^verbatim>\<open>files.forEach\<close>. \<^verbatim>\<open>readdirSync\<close> and
  \<^verbatim>\<open>statSync\<close> are outside the \<^verbatim>\<open>try\<close>: what they throw leaves the whole walk (\<open>Inl\<close>).
\<close>

function searchDirectory :: "(string \<Rightarrow> string \<Rightarrow> string + regexp) \<Rightarrow> string \<Rightarrow> string list \<Rightarrow> string
      \<Rightarrow> string \<Rightarrow> node \<Rightarrow> fileResult list \<times> nat \<Rightarrow> (string + fileResult list \<times> nat) option"
  and forEachFile :: "(string \<Rightarrow> string \<Rightarrow> string + regexp) \<Rightarrow> string \<Rightarrow> string list \<Rightarrow> string
      \<Rightarrow> string \<Rightarrow> (string \<times> node) list \<Rightarrow> fileResult list \<times> nat \<Rightarrow> (string + fileResult list \<times> nat) option"
  where
  "searchDirectory mk pattern fileExtensions flags dir (Dir files) st =
     forEachFile mk pattern fileExtensions flags dir files st"
| "searchDirectory mk pattern fileExtensions flags dir (DirDenied msg) st = Some (Inl msg)"
| "searchDirectory mk pattern fileExtensions flags dir (File r) st =
     Some (Inl ''ENOTDIR: not a directory, scandir'')"
| "searchDirectory mk pattern fileExtensions flags dir (Other r) st =
     Some (Inl ''ENOTDIR: not a directory, scandir'')"
| "searchDirectory mk pattern fileExtensions flags dir (NoStat msg) st = Some (Inl msg)"
| "forEachFile mk pattern fileExtensions flags dir [] st = Some (Inr st)"
| "forEachFile mk pattern fileExtensions flags dir ((name, n) # rest) st =
     (let filePath = pathJoin dir name
      in case statSync n of
           Inl msg \<Rightarrow> Some (Inl msg)
         | Inr stat \<Rightarrow>
             if isDirectory n
             then (if \<not> startsWithDot name \<and> name \<noteq> ''node_modules''
                   then (case searchDirectory mk pattern fileExtensions flags filePath n st of
                           None \<Rightarrow> None
                         | Some (Inl msg) \<Rightarrow> Some (Inl msg)
                         | Some (Inr st') \<Rightarrow> forEachFile mk pattern fileExtensions flags dir rest st')
                   else forEachFile mk pattern fileExtensions flags dir rest st)
             else if isFile n
             then (let ext = extname name
                   in if ext \<in> set fileExtensions
                      then (case tryScanFile mk pattern flags filePath n st of
                              None \<Rightarrow> None
                            | Some st' \<Rightarrow> forEachFile mk pattern fileExtensions flags dir rest st')
                      else forEachFile mk pattern fileExtensions flags dir rest st)
             else forEachFile mk pattern fileExtensions flags dir rest st)"
  by pat_completeness auto
termination
  by (relation "measure (\<lambda>x. case x of
          Inl (mk, pattern, exts, flags, dir, n, st) \<Rightarrow> size n
        | Inr (mk, pattern, exts, flags, dir, files, st) \<Rightarrow> size_list (size_prod (\<lambda>_. 0) size) files)")
     auto

definition defaultExtensions :: "string list" where
  "defaultExtensions = [''.js'', ''.ts'', ''.txt'', ''.md'', ''.json'']"

definition handleRegexSearchDirectory :: "env \<Rightarrow> string \<Rightarrow> string \<Rightarrow> string list option \<Rightarrow> string option
    \<Rightarrow> directorySummary response option" where
  "handleRegexSearchDirectory env pattern dirPath fileExtensionsArg flagsArg =
     (let fileExtensions = (case fileExtensionsArg of
                              None \<Rightarrow> defaultExtensions
                            | Some exts \<Rightarrow> exts);
          flags = (case flagsArg of None \<Rightarrow> ''g'' | Some f \<Rightarrow> f);
          resolvedDir = resolve env dirPath
      in if \<not> existsSync env resolvedDir
         then Some (IsError (''Directory not found: '' @ resolvedDir))
         else (case searchDirectory (newRegExp env) pattern fileExtensions flags resolvedDir
                      (nodeAt env resolvedDir) ([], 0) of
                 None \<Rightarrow> None
               | Some (Inl msg) \<Rightarrow> Some (IsError (''Error: '' @ msg))
               | Some (Inr (rs, totalM)) \<Rightarrow>
                   Some (Summary \<lparr>directory = resolvedDir, d_pattern = pattern, d_flags = flags,
                           extensions = fileExtensions, filesMatched = length rs,
                           totalMatches = totalM, d_results = rs\<rparr>)))"

section \<open>The occurrences of a pattern on a line, as the specification describes them\<close>

text \<open>
  The specification's reading of the occurrences on a line: an explicit cursor that walks
  the line from left to right, reports the leftmost match at or after the cursor and
  moves to the end of that match, or one character further when the match is empty.
  Each pair is the start and the end index of one occurrence. This definition follows the
  specification, not \<^verbatim>\<open>server.js\<close>; the theorems compare the two.
\<close>

function nonOverlapping :: "(string \<Rightarrow> nat \<Rightarrow> nat option) \<Rightarrow> string \<Rightarrow> nat \<Rightarrow> (nat \<times> nat) list" where
  "nonOverlapping m s i =
     (if length s < i then []
      else (case m s i of
              None \<Rightarrow> nonOverlapping m s (i + 1)
            | Some e \<Rightarrow> (i, e) # nonOverlapping m s (if i < e then e else i + 1)))"
  by pat_completeness auto
termination
  by (relation "measure (\<lambda>(m, s, i). length s + 1 - i)") auto

declare nonOverlapping.simps [simp del]

definition occurrenceAt :: "string \<Rightarrow> nat \<times> nat \<Rightarrow> occurrence" where
  "occurrenceAt s p = \<lparr>matchText = substring s (fst p) (snd p), column = fst p + 1\<rparr>"

text \<open>
  The line results the specification asks of a file: the lines numbered from 1 in their
  order, each kept exactly when it has an occurrence. \<open>occ\<close> gives the occurrences of a
  line.
\<close>

definition lineResultsOf :: "(string \<Rightarrow> occurrence list) \<Rightarrow> string list \<Rightarrow> lineResult list" where
  "lineResultsOf occ lines =
     map (\<lambda>(n, l). \<lparr>lineNumber = n, content = l, matches = occ l\<rparr>)
       (filter (\<lambda>(n, l). occ l \<noteq> []) (enumerate 1 lines))"

section \<open>Trees with parts taken out\<close>

text \<open>
  \<open>emptySkipped\<close> empties every directory entry whose name begins with a dot or is
  \<^verbatim>\<open>node_modules\<close>, at every depth; \<open>dropUnreadable\<close> removes every regular file that cannot
  be read. The walk is compared on a tree and on what these leave of it.
\<close>

function emptySkipped :: "node \<Rightarrow> node"
  and emptySkippedIn :: "(string \<times> node) list \<Rightarrow> (string \<times> node) list" where
  "emptySkipped (Dir files) = Dir (emptySkippedIn files)"
| "emptySkipped (DirDenied msg) = DirDenied msg"
| "emptySkipped (File r) = File r"
| "emptySkipped (Other r) = Other r"
| "emptySkipped (NoStat msg) = NoStat msg"
| "emptySkippedIn [] = []"
| "emptySkippedIn ((name, n) # rest) =
     (name, if isDirectory n \<and> (startsWithDot name \<or> name = ''node_modules'')
            then Dir [] else emptySkipped n) # emptySkippedIn rest"
  by pat_completeness auto
termination
  by (relation "measure (\<lambda>x. case x of
          Inl n \<Rightarrow> size n
        | Inr files \<Rightarrow> size_list (size_prod (\<lambda>_. 0) size) files)")
     auto

function dropUnreadable :: "node \<Rightarrow> node"
  and dropUnreadableIn :: "(string \<times> node) list \<Rightarrow> (string \<times> node) list" where
  "dropUnreadable (Dir files) = Dir (dropUnreadableIn files)"
| "dropUnreadable (DirDenied msg) = DirDenied msg"
| "dropUnreadable (File r) = File r"
| "dropUnreadable (Other r) = Other r"
| "dropUnreadable (NoStat msg) = NoStat msg"
| "dropUnreadableIn [] = []"
| "dropUnreadableIn ((name, n) # rest) =
     (case n of
        File (Inl msg) \<Rightarrow> dropUnreadableIn rest
      | _ \<Rightarrow> (name, dropUnreadable n) # dropUnreadableIn rest)"
  by pat_completeness auto
termination
  by (relation "measure (\<lambda>x. case x of
          Inl n \<Rightarrow> size n
        | Inr files \<Rightarrow> size_list (size_prod (\<lambda>_. 0) size) files)")
     auto

section \<open>A small host for concrete runs\<close>

text \<open>
  A \<^verbatim>\<open>RegExp\<close> constructor for a fragment of the pattern language, enough to run the
  handlers on concrete inputs: a pattern without metacharacters matches itself (the empty
  pattern matches the empty string everywhere), and one plain character followed by
  \<^verbatim>\<open>*\<close> matches the longest run of that character, which may be empty. The flag string
  is checked as the host does it: letters of \<^verbatim>\<open>dgimsuvy\<close>, none twice, not both \<^verbatim>\<open>u\<close> and
  \<^verbatim>\<open>v\<close>. The flag \<^verbatim>\<open>i\<close> folds ASCII letters. Any other pattern is answered with the
  error of an invalid one.
\<close>

definition validFlags :: "string \<Rightarrow> bool" where
  "validFlags flags =
     (distinct flags \<and> list_all (\<lambda>c. c \<in> set ''dgimsuvy'') flags
      \<and> \<not> (CHR ''u'' \<in> set flags \<and> CHR ''v'' \<in> set flags))"

definition metachars :: "char list" where
  "metachars = CHR 0x5C # ''^$.*+?()[]{}|''"

definition asciiLower :: "char \<Rightarrow> char" where
  "asciiLower c =
     (case map_of (zip ''ABCDEFGHIJKLMNOPQRSTUVWXYZ'' ''abcdefghijklmnopqrstuvwxyz'') c of
        Some d \<Rightarrow> d
      | None \<Rightarrow> c)"

definition canon :: "bool \<Rightarrow> string \<Rightarrow> string" where
  "canon ignoreCase s = (if ignoreCase then map asciiLower s else s)"

definition literalAt :: "bool \<Rightarrow> string \<Rightarrow> string \<Rightarrow> nat \<Rightarrow> nat option" where
  "literalAt ignoreCase p s i =
     (if canon ignoreCase (take (length p) (drop i s)) = canon ignoreCase p
      then Some (i + length p) else None)"

definition starAt :: "bool \<Rightarrow> char \<Rightarrow> string \<Rightarrow> nat \<Rightarrow> nat option" where
  "starAt ignoreCase c s i =
     Some (i + length (takeWhile (\<lambda>x. canon ignoreCase [x] = canon ignoreCase [c]) (drop i s)))"

definition sampleMatcher :: "bool \<Rightarrow> string \<Rightarrow> (string \<Rightarrow> nat \<Rightarrow> nat option) option" where
  "sampleMatcher ignoreCase pattern =
     (if list_all (\<lambda>c. c \<notin> set metachars) pattern then Some (literalAt ignoreCase pattern)
      else (case pattern of
              [c, star] \<Rightarrow> if star = CHR ''*'' \<and> c \<notin> set metachars
                             then Some (starAt ignoreCase c) else None
            | _ \<Rightarrow> None))"

definition sampleRegExp :: "string \<Rightarrow> string \<Rightarrow> string + regexp" where
  "sampleRegExp pattern flags =
     (if \<not> validFlags flags
      then Inl (''Invalid flags supplied to RegExp constructor '' @ flags)
      else (case sampleMatcher (CHR ''i'' \<in> set flags) pattern of
              None \<Rightarrow> Inl (''Invalid regular expression: /'' @ pattern @ ''/'')
            | Some m \<Rightarrow>
                Inr \<lparr>global = (CHR ''g'' \<in> set flags), sticky = (CHR ''y'' \<in> set flags),
                     matcher = m\<rparr>))"

text \<open>
  A host whose working directory is \<^verbatim>\<open>/w\<close>, with the given tree at \<^verbatim>\<open>/w/proj\<close> and nothing
  anywhere else.
\<close>

definition sampleEnv :: "node \<Rightarrow> env" where
  "sampleEnv tree =
     \<lparr>resolve = (\<lambda>p. case p of [] \<Rightarrow> ''/w'' | c # cs \<Rightarrow> if c = CHR ''/'' then p else ''/w/'' @ p),
      nodeAt = (\<lambda>p. if p = ''/w/proj'' then tree
                    else NoStat (''ENOENT: no such file or directory, stat '' @ p)),
      newRegExp = sampleRegExp\<rparr>"

section \<open>What the walk keeps true of its state\<close>

text \<open>
  The state of the walk is the array \<^verbatim>\<open>results\<close> and the counter \<^verbatim>\<open>totalMatches\<close>. The
  counter is the sum of the \<^verbatim>\<open>matchCount\<close> fields; every file result has at least one line,
  every line at least one occurrence, and \<^verbatim>\<open>matchCount\<close> is the number of occurrences.
\<close>

definition walkInvariant :: "fileResult list \<times> nat \<Rightarrow> bool" where
  "walkInvariant st =
     (snd st = sum_list (map matchCount (fst st))
      \<and> list_all (\<lambda>fr. matchCount fr = sum_list (map (\<lambda>lr. length (matches lr)) (results fr))
                       \<and> results fr \<noteq> []
                       \<and> list_all (\<lambda>lr. matches lr \<noteq> []) (results fr)) (fst st))"


section \<open>Facts about the scan\<close>

lemma execLoop_stall:
  assumes "exec r line li = (Some m, li)"
  shows "execLoop r line li acc = None"
proof (rule ccontr)
  assume "execLoop r line li acc \<noteq> None"
  then obtain y where y: "execLoop r line li acc = Some y" by auto
  have "\<forall>m. exec r line li \<noteq> (Some m, li)"
  proof (rule execLoop.raw_induct
      [where P = "\<lambda>r line li acc y. \<forall>m. exec r line li \<noteq> (Some m, li)", OF _ y])
    fix f r line li acc y
    assume IH: "\<And>r line li acc y. f r line li acc = Some y
                  \<Longrightarrow> \<forall>m. exec r line li \<noteq> (Some m, li)"
      and step: "(case exec r line li of
                    (None, lastIndex') \<Rightarrow> Some acc
                  | (Some (index, text), lastIndex') \<Rightarrow>
                      f r line lastIndex' (acc @ [\<lparr>matchText = text, column = index + 1\<rparr>]))
                 = Some (y :: occurrence list)"
    show "\<forall>m. exec r line li \<noteq> (Some m, li)"
    proof (intro allI notI)
      fix m assume e: "exec r line li = (Some m, li)"
      obtain i t where m: "m = (i, t)" by (cases m)
      from step e m have "f r line li (acc @ [\<lparr>matchText = t, column = i + 1\<rparr>]) = Some y"
        by simp
      from IH[OF this] e show False by blast
    qed
  qed
  with assms show False by blast
qed

lemma scanFrom_skip:
  assumes "m s i = None" "\<not> length s < i"
  shows "scanFrom m False s i = scanFrom m False s (i + 1)"
  using assms by (subst scanFrom.simps) simp

lemma scanFrom_hit:
  assumes "m s i = Some e" "\<not> length s < i"
  shows "scanFrom m stick s i = Some (i, e)"
  using assms by (subst scanFrom.simps) simp

lemma scanFrom_past: "length s < i \<Longrightarrow> scanFrom m stick s i = None"
  by (subst scanFrom.simps) simp

lemma execLoop_global:
  assumes g: "global r" and ns: "\<not> sticky r"
    and ne: "\<forall>i e. matcher r line i = Some e \<longrightarrow> i < e"
  shows "execLoop r line i acc
           = Some (acc @ map (occurrenceAt line) (nonOverlapping (matcher r) line i))"
  using ne
proof (induction "matcher r" line i arbitrary: acc rule: nonOverlapping.induct)
  case (1 s i)
  show ?case
  proof (cases "length s < i")
    case True
    then have "exec r s i = (None, 0)"
      using g by (simp add: exec_def scanFrom_past)
    then have "execLoop r s i acc = Some acc" by (subst execLoop.simps) simp
    moreover from True have "nonOverlapping (matcher r) s i = []"
      by (subst nonOverlapping.simps) simp
    ultimately show ?thesis by simp
  next
    case False
    show ?thesis
    proof (cases "matcher r s i")
      case None
      from None False have "scanFrom (matcher r) False s i = scanFrom (matcher r) False s (i + 1)"
        by (rule scanFrom_skip)
      with ns g have "exec r s i = exec r s (i + 1)"
        by (auto simp: exec_def split: option.splits)
      then have "execLoop r s i acc = execLoop r s (i + 1) acc"
        by (subst execLoop.simps, subst (2) execLoop.simps) simp
      also have "\<dots> = Some (acc @ map (occurrenceAt s) (nonOverlapping (matcher r) s (i + 1)))"
        using "1.hyps"(1)[OF False None] "1.prems" by simp
      also from None False have "nonOverlapping (matcher r) s (i + 1) = nonOverlapping (matcher r) s i"
        by (subst (2) nonOverlapping.simps) simp
      finally show ?thesis .
    next
      case (Some e)
      with "1.prems" have ie: "i < e" by simp
      from Some False g have "exec r s i = (Some (i, substring s i e), e)"
        by (simp add: exec_def scanFrom_hit)
      then have "execLoop r s i acc
                   = execLoop r s e (acc @ [\<lparr>matchText = substring s i e, column = i + 1\<rparr>])"
        by (subst execLoop.simps) simp
      also have "\<dots> = Some ((acc @ [\<lparr>matchText = substring s i e, column = i + 1\<rparr>])
                         @ map (occurrenceAt s) (nonOverlapping (matcher r) s e))"
        using "1.hyps"(2)[OF False Some] "1.prems" ie by simp
      also from Some False ie
      have "nonOverlapping (matcher r) s i = (i, e) # nonOverlapping (matcher r) s e"
        by (subst nonOverlapping.simps) simp
      then have "(acc @ [\<lparr>matchText = substring s i e, column = i + 1\<rparr>])
                   @ map (occurrenceAt s) (nonOverlapping (matcher r) s e)
                 = acc @ map (occurrenceAt s) (nonOverlapping (matcher r) s i)"
        by (simp add: occurrenceAt_def)
      finally show ?thesis .
    qed
  qed
qed

lemma nonOverlapping_ordered:
  assumes ne: "\<forall>i e. m s i = Some e \<longrightarrow> i < e"
  shows "list_all (\<lambda>p. i \<le> fst p \<and> fst p < snd p \<and> m s (fst p) = Some (snd p)) (nonOverlapping m s i)
         \<and> sorted_wrt (\<lambda>p q. snd p \<le> fst q) (nonOverlapping m s i)"
  using ne
proof (induction m s i rule: nonOverlapping.induct)
  case (1 m s i)
  show ?case
  proof (cases "length s < i")
    case True
    then have "nonOverlapping m s i = []" by (subst nonOverlapping.simps) simp
    then show ?thesis by simp
  next
    case False
    show ?thesis
    proof (cases "m s i")
      case None
      with False have eq: "nonOverlapping m s i = nonOverlapping m s (i + 1)"
        by (subst nonOverlapping.simps) simp
      from "1.IH"(1)[OF False None] "1.prems"
      have "list_all (\<lambda>p. i + 1 \<le> fst p \<and> fst p < snd p \<and> m s (fst p) = Some (snd p))
              (nonOverlapping m s (i + 1))"
        and "sorted_wrt (\<lambda>p q. snd p \<le> fst q) (nonOverlapping m s (i + 1))"
        by simp_all
      then show ?thesis unfolding eq by (auto simp: list_all_iff)
    next
      case (Some e)
      with "1.prems" have ie: "i < e" by simp
      with Some False have eq: "nonOverlapping m s i = (i, e) # nonOverlapping m s e"
        by (subst nonOverlapping.simps) simp
      from "1.IH"(2)[OF False Some] "1.prems" ie
      have "list_all (\<lambda>p. e \<le> fst p \<and> fst p < snd p \<and> m s (fst p) = Some (snd p))
              (nonOverlapping m s e)"
        and "sorted_wrt (\<lambda>p q. snd p \<le> fst q) (nonOverlapping m s e)"
        by simp_all
      then show ?thesis unfolding eq using ie Some by (auto simp: list_all_iff)
    qed
  qed
qed

lemma columns_increasing:
  assumes "list_all (\<lambda>p. fst p < snd p) (ps :: (nat \<times> nat) list)" "sorted_wrt (\<lambda>p q. snd p \<le> fst q) ps"
  shows "sorted_wrt (<) (map (\<lambda>p. fst p + 1) ps)"
  using assms
proof (induction ps)
  case Nil
  then show ?case by simp
next
  case (Cons p ps)
  have "\<forall>q\<in>set ps. fst p + 1 < fst q + 1"
  proof
    fix q assume "q \<in> set ps"
    with Cons.prems have "snd p \<le> fst q" and "fst p < snd p" by simp_all
    then show "fst p + 1 < fst q + 1" by simp
  qed
  moreover from Cons have "sorted_wrt (<) (map (\<lambda>p. fst p + 1) ps)"
    by simp
  ultimately show ?case by simp
qed

lemma findOccurrences_cursor:
  assumes "global r" "\<not> sticky r" "\<forall>i e. matcher r line i = Some e \<longrightarrow> i < e"
  shows "findOccurrences r line
           = Some (map (occurrenceAt line) (nonOverlapping (matcher r) line 0))"
  using execLoop_global [OF assms, of 0 "[]"] by (simp add: findOccurrences_def)

lemma findOccurrences_nonglobal:
  assumes "\<not> global r" "\<not> sticky r"
  shows "findOccurrences r line =
           (if scanFrom (matcher r) False line 0 = None then Some [] else None)"
proof (cases "scanFrom (matcher r) False line 0")
  case None
  with assms have "exec r line 0 = (None, 0)" by (simp add: exec_def)
  then have "execLoop r line 0 [] = Some []" by (subst execLoop.simps) simp
  with None show ?thesis by (simp add: findOccurrences_def)
next
  case (Some p)
  obtain i e where "p = (i, e)" by (cases p)
  with Some assms have "exec r line 0 = (Some (i, substring line i e), 0)"
    by (simp add: exec_def)
  then have "execLoop r line 0 [] = None" by (rule execLoop_stall)
  with Some show ?thesis by (simp add: findOccurrences_def)
qed

lemma findOccurrences_empty_at_start:
  assumes "global r \<or> sticky r" "matcher r line 0 = Some 0"
  shows "findOccurrences r line = None"
proof -
  from assms(2) have "scanFrom (matcher r) (sticky r) line 0 = Some (0, 0)"
    by (simp add: scanFrom.simps)
  with assms(1) have "exec r line 0 = (Some (0, substring line 0 0), 0)"
    by (auto simp add: exec_def)
  then have "execLoop r line 0 [] = None" by (rule execLoop_stall)
  then show ?thesis by (simp add: findOccurrences_def)
qed

section \<open>Facts about the small host\<close>

lemma sample_star_g: "sampleRegExp ''a*'' ''g'' = Inr \<lparr>global = True, sticky = False, matcher = starAt False CHR ''a''\<rparr>"
  by (simp add: sampleRegExp_def validFlags_def sampleMatcher_def metachars_def)

lemma sample_foo_i: "sampleRegExp ''foo'' ''i'' = Inr \<lparr>global = False, sticky = False, matcher = literalAt True ''foo''\<rparr>"
  by (simp add: sampleRegExp_def validFlags_def sampleMatcher_def metachars_def)

lemma sample_foo_g: "sampleRegExp ''foo'' ''g'' = Inr \<lparr>global = True, sticky = False, matcher = literalAt False ''foo''\<rparr>"
  by (simp add: sampleRegExp_def validFlags_def sampleMatcher_def metachars_def)

lemma sample_bad: "sampleRegExp ''('' ''g'' = Inl ''Invalid regular expression: /(/''"
  by (simp add: sampleRegExp_def validFlags_def sampleMatcher_def metachars_def)

lemma sample_bad_flag: "sampleRegExp ''foo'' ''gx'' = Inl ''Invalid flags supplied to RegExp constructor gx''"
  by (simp add: sampleRegExp_def validFlags_def)

lemma sample_findOccurrences:
  assumes "p \<noteq> []"
  shows "findOccurrences \<lparr>global = True, sticky = False, matcher = literalAt ic p\<rparr> line
           = Some (map (occurrenceAt line) (nonOverlapping (literalAt ic p) line 0))"
  using findOccurrences_cursor [of "\<lparr>global = True, sticky = False, matcher = literalAt ic p\<rparr>" line]
    assms by (simp add: literalAt_def)

lemmas run_simps = handleRegexSearchDirectory_def handleRegexSearch_def sampleEnv_def existsSync_def
  tryScanFile_def extname_def pathJoin_def startsWithDot_def sumMatches_def defaultExtensions_def
  sample_foo_g sample_findOccurrences nonOverlapping.simps literalAt_def canon_def
  occurrenceAt_def substring_def

section \<open>Zero-length matches\<close>

text \<open>
  Claim C1: for a pattern that can match the empty string, compiled with the global flag,
  matching a non-empty line terminates and returns a finite sequence of occurrences.

  The loop of \<^verbatim>\<open>server.js\<close> does not do this. \<^verbatim>\<open>exec\<close> sets \<^verbatim>\<open>lastIndex\<close> to the end of the
  match, which for an empty match is where the search began, and the loop body never moves
  it: the next round finds the same empty match. The pattern \<^verbatim>\<open>a*\<close> with flags \<^verbatim>\<open>g\<close>
  compiles to a global expression that matches the empty string, and on the line \<^verbatim>\<open>b\<close> the
  loop never exits; neither does the single-file search of a file holding that line.
\<close>

theorem empty_match_loop_never_exits:
  "sampleRegExp ''a*'' ''g'' = Inr \<lparr>global = True, sticky = False, matcher = starAt False CHR ''a''\<rparr>
   \<and> starAt False CHR ''a'' '''' 0 = Some 0
   \<and> exec \<lparr>global = True, sticky = False, matcher = starAt False CHR ''a''\<rparr> ''b'' 0
       = (Some (0, ''''), 0)
   \<and> findOccurrences \<lparr>global = True, sticky = False, matcher = starAt False CHR ''a''\<rparr> ''b'' = None
   \<and> handleRegexSearch (sampleEnv (File (Inr ''b''))) ''a*'' ''proj'' (Some ''g'') = None"
proof -
  let ?r = "\<lparr>global = True, sticky = False, matcher = starAt False CHR ''a''\<rparr>"
  have m0: "matcher ?r ''b'' 0 = Some 0" by (simp add: starAt_def canon_def)
  then have ex: "exec ?r ''b'' 0 = (Some (0, ''''), 0)"
    by (simp add: exec_def scanFrom.simps substring_def)
  from m0 have never: "findOccurrences ?r ''b'' = None"
    by (intro findOccurrences_empty_at_start) simp_all
  then have "handleRegexSearch (sampleEnv (File (Inr ''b''))) ''a*'' ''proj'' (Some ''g'') = None"
    by (simp add: handleRegexSearch_def sampleEnv_def existsSync_def sample_star_g)
  moreover have "starAt False CHR ''a'' '''' 0 = Some 0" by (simp add: starAt_def)
  ultimately show ?thesis using sample_star_g ex never by simp
qed

section \<open>Expressions without the global flag\<close>

text \<open>
  Claim C2: for a pattern compiled without the global flag, matching a line returns at most
  one occurrence (the first one on the line), and the per-line matching terminates.

  The loop of \<^verbatim>\<open>server.js\<close> does not do this. Without \<^verbatim>\<open>g\<close> (and \<^verbatim>\<open>y\<close>) every call of
  \<^verbatim>\<open>exec\<close> searches from index 0 and leaves \<^verbatim>\<open>lastIndex\<close> alone, so on a line with a match
  it returns that same first match on every round and never \<^verbatim>\<open>null\<close>. The pattern \<^verbatim>\<open>foo\<close>
  with flags \<^verbatim>\<open>i\<close> on the line \<^verbatim>\<open>foo\<close>: the loop never exits, and neither does the
  single-file search of a file holding that line.
\<close>

theorem nonglobal_match_loop_never_exits:
  "sampleRegExp ''foo'' ''i'' = Inr \<lparr>global = False, sticky = False, matcher = literalAt True ''foo''\<rparr>
   \<and> exec \<lparr>global = False, sticky = False, matcher = literalAt True ''foo''\<rparr> ''foo'' 0
       = (Some (0, ''foo''), 0)
   \<and> findOccurrences \<lparr>global = False, sticky = False, matcher = literalAt True ''foo''\<rparr> ''foo'' = None
   \<and> handleRegexSearch (sampleEnv (File (Inr ''foo''))) ''foo'' ''proj'' (Some ''i'') = None"
proof -
  let ?r = "\<lparr>global = False, sticky = False, matcher = literalAt True ''foo''\<rparr>"
  have sc: "scanFrom (matcher ?r) False ''foo'' 0 = Some (0, 3)"
    by (simp add: scanFrom.simps literalAt_def canon_def)
  then have ex: "exec ?r ''foo'' 0 = (Some (0, ''foo''), 0)"
    by (simp add: exec_def substring_def)
  from sc have never: "findOccurrences ?r ''foo'' = None"
    by (simp add: findOccurrences_nonglobal)
  then have "handleRegexSearch (sampleEnv (File (Inr ''foo''))) ''foo'' ''proj'' (Some ''i'') = None"
    by (simp add: handleRegexSearch_def sampleEnv_def existsSync_def sample_foo_i)
  with sample_foo_i ex never show ?thesis by simp
qed

section \<open>Global expressions whose matches are never empty\<close>

text \<open>
  Claim C4: for a pattern compiled with the global flag and a line that holds exactly \<open>k\<close>
  non-overlapping, non-empty matches, matching the line returns exactly \<open>k\<close> occurrences, from
  left to right, with strictly increasing columns, each column being the 0-based start
  index of its match plus 1.

  The matches of the line are those the left-to-right cursor of the specification finds
  (\<open>nonOverlapping\<close>, from index 0): each is a match of the pattern at its start index, none
  is empty, and each begins at or after the end of the one before. The loop of
  \<^verbatim>\<open>server.js\<close> exits and returns one occurrence for each of them, in that order.
\<close>

theorem findOccurrences_global_nonempty:
  assumes "global r" "\<not> sticky r" "\<forall>i e. matcher r line i = Some e \<longrightarrow> i < e"
  shows "\<exists>occs. findOccurrences r line = Some occs
           \<and> occs = map (occurrenceAt line) (nonOverlapping (matcher r) line 0)
           \<and> length occs = length (nonOverlapping (matcher r) line 0)
           \<and> map column occs = map (\<lambda>p. fst p + 1) (nonOverlapping (matcher r) line 0)
           \<and> sorted_wrt (<) (map column occs)
           \<and> sorted_wrt (\<lambda>p q. snd p \<le> fst q) (nonOverlapping (matcher r) line 0)
           \<and> list_all (\<lambda>p. fst p < snd p \<and> matcher r line (fst p) = Some (snd p))
                (nonOverlapping (matcher r) line 0)"
proof -
  let ?ps = "nonOverlapping (matcher r) line 0"
  let ?occs = "map (occurrenceAt line) ?ps"
  have run: "findOccurrences r line = Some ?occs"
    using execLoop_global[OF assms, of 0 "[]"] by (simp add: findOccurrences_def)
  have cols: "map column ?occs = map (\<lambda>p. fst p + 1) ?ps"
    by (simp add: occurrenceAt_def comp_def)
  from nonOverlapping_ordered[where m = "matcher r" and s = line and i = 0] assms(3)
  have la: "list_all (\<lambda>p. fst p < snd p \<and> matcher r line (fst p) = Some (snd p)) ?ps"
    and sw: "sorted_wrt (\<lambda>p q. snd p \<le> fst q) ?ps"
    by (simp_all add: list_all_iff)
  from la have "list_all (\<lambda>p. fst p < snd p) ?ps" by (simp add: list_all_iff)
  from columns_increasing[OF this sw]
  have "sorted_wrt (<) (map column ?occs)" by (simp only: cols)
  with run cols la sw show ?thesis by simp
qed

theorem findOccurrences_global_nonempty_witness:
  "global \<lparr>global = True, sticky = False, matcher = literalAt False ''foo''\<rparr>
   \<and> \<not> sticky \<lparr>global = True, sticky = False, matcher = literalAt False ''foo''\<rparr>
   \<and> nonOverlapping (literalAt False ''foo'') ''foo bar foo'' 0 = [(0, 3), (8, 11)]
   \<and> findOccurrences \<lparr>global = True, sticky = False, matcher = literalAt False ''foo''\<rparr> ''foo bar foo''
       = Some [\<lparr>matchText = ''foo'', column = 1\<rparr>, \<lparr>matchText = ''foo'', column = 9\<rparr>]"
proof -
  let ?r = "\<lparr>global = True, sticky = False, matcher = literalAt False ''foo''\<rparr>"
  have g: "global ?r" and ns: "\<not> sticky ?r" by simp_all
  have ne: "\<forall>i e. matcher ?r ''foo bar foo'' i = Some e \<longrightarrow> i < e"
    by (simp add: literalAt_def)
  have ps: "nonOverlapping (literalAt False ''foo'') ''foo bar foo'' 0 = [(0, 3), (8, 11)]"
    by (simp add: nonOverlapping.simps literalAt_def canon_def)
  from findOccurrences_global_nonempty [OF g ns ne] ps show ?thesis
    by (simp add: occurrenceAt_def substring_def)
qed

section \<open>A target that does not exist\<close>

text \<open>
  Claim C5: when the resolved target path (a file, or the root of a directory search) does
  not exist, the search returns a failure whose message mentions the resolved path, before
  any read is attempted, and produces no summary.

  Both handlers test \<^verbatim>\<open>existsSync\<close> first. The answer is the same whatever reading the path
  would give and whether or not the pattern compiles: neither is consulted.
\<close>

theorem not_found_before_read:
  assumes "\<not> existsSync env (resolve env p)"
  shows "handleRegexSearch env pattern p flagsArg
           = Some (IsError (''File not found: '' @ resolve env p))
       \<and> handleRegexSearchDirectory env pattern p fileExtensionsArg flagsArg
           = Some (IsError (''Directory not found: '' @ resolve env p))"
  using assms by (simp add: handleRegexSearch_def handleRegexSearchDirectory_def Let_def)

theorem not_found_before_read_witness:
  "handleRegexSearch (sampleEnv (Dir [])) ''('' ''missing.txt'' None
     = Some (IsError ''File not found: /w/missing.txt'')
   \<and> handleRegexSearchDirectory (sampleEnv (Dir [])) ''('' ''missing'' None None
     = Some (IsError ''Directory not found: /w/missing'')"
proof -
  have a: "\<not> existsSync (sampleEnv (Dir [])) (resolve (sampleEnv (Dir [])) ''missing.txt'')"
    by (simp add: existsSync_def sampleEnv_def)
  have b: "\<not> existsSync (sampleEnv (Dir [])) (resolve (sampleEnv (Dir [])) ''missing'')"
    by (simp add: existsSync_def sampleEnv_def)
  from not_found_before_read [OF a, of "''(''" None None] not_found_before_read [OF b, of "''(''" None None]
  show ?thesis by (simp add: sampleEnv_def)
qed

section \<open>Facts about the line loops\<close>

lemma splitLines_nonempty: "splitLines s \<noteq> []"
  by (induction s) (auto split: list.splits)

lemma forEachLineDir_compile_error:
  assumes "mk pattern flags = Inl msg"
  shows "forEachLineDir mk pattern flags (line # rest) index fm tm = Some (Some msg, fm, tm)"
  using assms by simp

lemma tryScanFile_compile_error:
  assumes "mk pattern flags = Inl msg"
  shows "tryScanFile mk pattern flags filePath n st = Some st"
proof (cases "readFileSync n")
  case (Inl e)
  then show ?thesis by (simp add: tryScanFile_def)
next
  case (Inr fileContent)
  obtain l ls where "splitLines fileContent = l # ls"
    using splitLines_nonempty by (cases "splitLines fileContent") auto
  with Inr assms show ?thesis by (simp add: tryScanFile_def)
qed

lemma tryScanFile_unreadable:
  "tryScanFile mk pattern flags filePath (File (Inl msg)) st = Some st"
  by (simp add: tryScanFile_def)

lemma tryScanFile_cong_read:
  "readFileSync n' = readFileSync n \<Longrightarrow>
     tryScanFile mk pattern flags filePath n' st = tryScanFile mk pattern flags filePath n st"
  by (simp add: tryScanFile_def)

lemma forEachLine_run:
  assumes "mk pattern flags = Inr r"
    and "\<forall>line\<in>set lines. findOccurrences r line \<noteq> None"
  shows "forEachLine mk pattern flags lines index ms
           = Some (Inr (ms @ map (\<lambda>(n, l). \<lparr>lineNumber = n, content = l,
                                              matches = the (findOccurrences r l)\<rparr>)
                           (filter (\<lambda>(n, l). the (findOccurrences r l) \<noteq> [])
                              (enumerate (index + 1) lines))))"
  using assms(2)
proof (induction lines arbitrary: index ms)
  case Nil
  then show ?case by simp
next
  case (Cons line rest)
  from Cons.prems obtain lm where lm: "findOccurrences r line = Some lm" by auto
  from Cons.prems have rest: "\<forall>l\<in>set rest. findOccurrences r l \<noteq> None" by simp
  show ?case
    using assms(1) lm Cons.IH [OF rest, of "index + 1"] by simp
qed

lemma lineNumbers_increasing:
  "sorted_wrt (<) (map fst (filter P (enumerate n (xs :: 'a list))))"
proof -
  have "sorted_wrt (<) (map fst (enumerate n xs))"
    by (simp add: map_fst_enumerate)
  then have "sorted_wrt (\<lambda>x y. fst x < fst y) (enumerate n xs)"
    by (simp only: sorted_wrt_map)
  then have "sorted_wrt (\<lambda>x y. fst x < fst y) (filter P (enumerate n xs))"
    by (rule sorted_wrt_filter)
  then show ?thesis by (simp only: sorted_wrt_map)
qed

lemma readable_exists:
  "readFileSync (nodeAt env p) = Inr c \<Longrightarrow> existsSync env p"
  by (cases "nodeAt env p") (simp_all add: existsSync_def)

lemma foldl_add_sum: "foldl (\<lambda>sum m. sum + f m) (a :: nat) xs = a + sum_list (map f xs)"
  by (induction xs arbitrary: a) simp_all

lemma sumMatches_sum_list: "sumMatches xs = sum_list (map (\<lambda>lr. length (matches lr)) xs)"
  by (simp add: sumMatches_def foldl_add_sum)

lemma forEachLineDir_thrown:
  "forEachLineDir mk pattern flags lines index fm tm = Some (Some msg, fm', tm')
     \<Longrightarrow> mk pattern flags = Inl msg \<and> fm' = fm \<and> tm' = tm"
proof (induction lines arbitrary: index fm tm)
  case Nil
  then show ?case by simp
next
  case (Cons line rest)
  show ?case
  proof (cases "mk pattern flags")
    case (Inl e)
    with Cons.prems show ?thesis by simp
  next
    case (Inr r)
    with Cons.prems obtain lm where lm: "findOccurrences r line = Some lm"
      by (auto split: option.splits)
    from Cons.prems Inr lm
    have "\<exists>fm0 tm0. forEachLineDir mk pattern flags rest (index + 1) fm0 tm0
                       = Some (Some msg, fm', tm')"
      by (auto split: if_splits)
    then obtain fm0 tm0 where
      "forEachLineDir mk pattern flags rest (index + 1) fm0 tm0 = Some (Some msg, fm', tm')"
      by blast
    from Cons.IH [OF this] Inr show ?thesis by simp
  qed
qed

lemma forEachLineDir_done:
  "forEachLineDir mk pattern flags lines index fm tm = Some (None, fm', tm')
     \<Longrightarrow> tm' + sumMatches fm = tm + sumMatches fm'
         \<and> (list_all (\<lambda>lr. matches lr \<noteq> []) fm \<longrightarrow> list_all (\<lambda>lr. matches lr \<noteq> []) fm')"
proof (induction lines arbitrary: index fm tm)
  case Nil
  then show ?case by simp
next
  case (Cons line rest)
  from Cons.prems obtain r where r: "mk pattern flags = Inr r"
    by (cases "mk pattern flags") auto
  with Cons.prems obtain lm where lm: "findOccurrences r line = Some lm"
    by (auto split: option.splits)
  show ?case
  proof (cases "length lm > 0")
    case True
    let ?lr = "\<lparr>lineNumber = index + 1, content = line, matches = lm\<rparr>"
    from Cons.prems r lm True
    have "forEachLineDir mk pattern flags rest (index + 1) (fm @ [?lr]) (tm + length lm)
            = Some (None, fm', tm')"
      by simp
    from Cons.IH [OF this] True show ?thesis
      by (simp add: sumMatches_sum_list)
  next
    case False
    with Cons.prems r lm
    have "forEachLineDir mk pattern flags rest (index + 1) fm tm = Some (None, fm', tm')"
      by simp
    from Cons.IH [OF this] show ?thesis .
  qed
qed

lemma tryScanFile_invariant:
  assumes "walkInvariant st" "tryScanFile mk pattern flags filePath n st = Some st'"
  shows "walkInvariant st'"
proof (cases "readFileSync n")
  case (Inl e)
  with assms show ?thesis by (simp add: tryScanFile_def)
next
  case (Inr fileContent)
  with assms(2) obtain thrown fm' tm' where
    run: "forEachLineDir mk pattern flags (splitLines fileContent) 0 [] (snd st)
            = Some (thrown, fm', tm')"
    by (auto simp: tryScanFile_def split: option.splits)
  show ?thesis
  proof (cases thrown)
    case (Some msg)
    with run forEachLineDir_thrown [of mk pattern flags "splitLines fileContent" 0 "[]" "snd st" msg fm' tm']
    have "tm' = snd st" by simp
    with assms Inr run Some show ?thesis by (simp add: tryScanFile_def)
  next
    case None
    with run forEachLineDir_done [of mk pattern flags "splitLines fileContent" 0 "[]" "snd st" fm' tm']
    have tm: "tm' = snd st + sumMatches fm'" and ne: "list_all (\<lambda>lr. matches lr \<noteq> []) fm'"
      by (simp_all add: sumMatches_def)
    from assms(2) Inr run None
    have st': "st' = (if length fm' > 0
                      then fst st @ [\<lparr>file_ = filePath, matchCount = sumMatches fm', results = fm'\<rparr>]
                      else fst st, tm')"
      by (simp add: tryScanFile_def)
    show ?thesis
    proof (cases "length fm' > 0")
      case True
      with st' tm ne assms(1) show ?thesis
        by (simp add: walkInvariant_def sumMatches_sum_list)
    next
      case False
      then have "fm' = []" by simp
      with st' tm assms(1) show ?thesis
        by (simp add: walkInvariant_def sumMatches_def)
    qed
  qed
qed

section \<open>A pattern that does not compile\<close>

text \<open>
  Claim C3: for an invalid pattern or an unrecognised flag, both the single-file search
  and the directory search return a failure carrying the message of the compile error, with
  no partial results; in a directory search the compile error is fatal to the call and is
  not swallowed per file.

  The single-file search does this: it compiles the pattern once before the line loop, outside
  any inner \<^verbatim>\<open>try\<close>. The directory search compiles only inside the \<^verbatim>\<open>try\<close> around each
  file, whose \<^verbatim>\<open>catch\<close> is commented "Skip files that can't be read": the
  \<^verbatim>\<open>SyntaxError\<close> is dropped with every file, and the call answers with an empty summary
  instead of a failure. The pattern \<^verbatim>\<open>(\<close> and the flag string \<^verbatim>\<open>gx\<close> both show it.
\<close>

theorem directory_search_swallows_compile_error:
  "handleRegexSearch (sampleEnv (File (Inr ''x''))) ''('' ''proj'' (Some ''g'')
     = Some (IsError ''Error: Invalid regular expression: /(/'')
   \<and> handleRegexSearchDirectory (sampleEnv (Dir [(''a.txt'', File (Inr ''x''))])) ''('' ''proj'' None (Some ''g'')
     = Some (Summary \<lparr>directory = ''/w/proj'', d_pattern = ''('', d_flags = ''g'',
               extensions = defaultExtensions, filesMatched = 0, totalMatches = 0, d_results = []\<rparr>)
   \<and> handleRegexSearchDirectory (sampleEnv (Dir [(''a.txt'', File (Inr ''foo''))])) ''foo'' ''proj'' None (Some ''gx'')
     = Some (Summary \<lparr>directory = ''/w/proj'', d_pattern = ''foo'', d_flags = ''gx'',
               extensions = defaultExtensions, filesMatched = 0, totalMatches = 0, d_results = []\<rparr>)"
proof -
  have ext: "extname ''a.txt'' \<in> set defaultExtensions"
    by (simp add: extname_def defaultExtensions_def)
  have "handleRegexSearch (sampleEnv (File (Inr ''x''))) ''('' ''proj'' (Some ''g'')
     = Some (IsError ''Error: Invalid regular expression: /(/'')"
    by (simp add: handleRegexSearch_def sampleEnv_def existsSync_def sample_bad)
  moreover have "handleRegexSearchDirectory (sampleEnv (Dir [(''a.txt'', File (Inr ''x''))])) ''('' ''proj'' None (Some ''g'')
     = Some (Summary \<lparr>directory = ''/w/proj'', d_pattern = ''('', d_flags = ''g'',
               extensions = defaultExtensions, filesMatched = 0, totalMatches = 0, d_results = []\<rparr>)"
    using ext
    by (simp add: handleRegexSearchDirectory_def sampleEnv_def existsSync_def
        tryScanFile_compile_error [where mk = sampleRegExp, OF sample_bad])
  moreover have "handleRegexSearchDirectory (sampleEnv (Dir [(''a.txt'', File (Inr ''foo''))])) ''foo'' ''proj'' None (Some ''gx'')
     = Some (Summary \<lparr>directory = ''/w/proj'', d_pattern = ''foo'', d_flags = ''gx'',
               extensions = defaultExtensions, filesMatched = 0, totalMatches = 0, d_results = []\<rparr>)"
    using ext
    by (simp add: handleRegexSearchDirectory_def sampleEnv_def existsSync_def
        tryScanFile_compile_error [where mk = sampleRegExp, OF sample_bad_flag])
  ultimately show ?thesis by simp
qed

section \<open>The line results of a file\<close>

text \<open>
  When the file can be read, the pattern compiles and the matching loop exits on every
  line of the file, the single-file search succeeds and its results are the numbered lines
  of the file filtered by "has an occurrence", so the line numbers are strictly increasing.
  The second lemma runs it on a file of six lines with occurrences on lines 2 and 5.
\<close>

lemma line_results_when_loops_exit:
  assumes rd: "readFileSync (nodeAt env (resolve env filePath)) = Inr fileContent"
    and mk: "newRegExp env pattern flags = Inr r"
    and fin: "\<forall>line\<in>set (splitLines fileContent). findOccurrences r line \<noteq> None"
  shows "\<exists>sm. handleRegexSearch env pattern filePath (Some flags) = Some (Summary sm)
           \<and> forEachLine (newRegExp env) pattern flags (splitLines fileContent) 0 []
               = Some (Inr (s_results sm))
           \<and> s_results sm
               = lineResultsOf (\<lambda>l. the (findOccurrences r l)) (splitLines fileContent)
           \<and> map lineNumber (s_results sm)
               = map fst (filter (\<lambda>(n, l). the (findOccurrences r l) \<noteq> [])
                            (enumerate 1 (splitLines fileContent)))
           \<and> sorted_wrt (<) (map lineNumber (s_results sm))"
proof -
  let ?lines = "splitLines fileContent"
  let ?rs = "lineResultsOf (\<lambda>l. the (findOccurrences r l)) ?lines"
  have run: "forEachLine (newRegExp env) pattern flags ?lines 0 [] = Some (Inr ?rs)"
    using forEachLine_run [where mk = "newRegExp env", OF mk fin, of 0 "[]"]
    by (simp add: lineResultsOf_def)
  have nums: "map lineNumber ?rs
                = map fst (filter (\<lambda>(n, l). the (findOccurrences r l) \<noteq> []) (enumerate 1 ?lines))"
    by (simp add: lineResultsOf_def comp_def case_prod_unfold)
  have "sorted_wrt (<) (map lineNumber ?rs)"
    unfolding nums by (rule lineNumbers_increasing)
  with run nums rd mk readable_exists [OF rd] show ?thesis
    by (simp add: handleRegexSearch_def)
qed

lemma line_results_lines_2_and_5:
  "handleRegexSearch
     (sampleEnv (File (Inr (''a'' @ CHR 0x0A # ''foo'' @ CHR 0x0A # ''b'' @ CHR 0x0A # ''c''
                            @ CHR 0x0A # ''foo foo'' @ CHR 0x0A # ''d''))))
     ''foo'' ''proj'' (Some ''g'')
   = Some (Summary \<lparr>s_file = ''/w/proj'', s_pattern = ''foo'', s_flags = ''g'', s_totalMatches = 3,
       s_results =
         [\<lparr>lineNumber = 2, content = ''foo'', matches = [\<lparr>matchText = ''foo'', column = 1\<rparr>]\<rparr>,
          \<lparr>lineNumber = 5, content = ''foo foo'',
            matches = [\<lparr>matchText = ''foo'', column = 1\<rparr>, \<lparr>matchText = ''foo'', column = 5\<rparr>]\<rparr>]\<rparr>)"
proof -
  let ?content = "''a'' @ CHR 0x0A # ''foo'' @ CHR 0x0A # ''b'' @ CHR 0x0A # ''c''
                    @ CHR 0x0A # ''foo foo'' @ CHR 0x0A # ''d''"
  let ?env = "sampleEnv (File (Inr ?content))"
  let ?r = "\<lparr>global = True, sticky = False, matcher = literalAt False ''foo''\<rparr>"
  have rd: "readFileSync (nodeAt ?env (resolve ?env ''proj'')) = Inr ?content"
    by (simp add: sampleEnv_def)
  have mk: "newRegExp ?env ''foo'' ''g'' = Inr ?r"
    by (simp add: sampleEnv_def sample_foo_g)
  have fin: "\<forall>line\<in>set (splitLines ?content). findOccurrences ?r line \<noteq> None"
    by (simp add: sample_findOccurrences)
  from line_results_when_loops_exit [OF rd mk fin] show ?thesis
    by (simp add: run_simps lineResultsOf_def enumerate_eq_zip)
qed

text \<open>
  Claim C8: for every readable file, the scan produces a line result exactly for the lines
  that have at least one occurrence, numbered from 1 in the order of the file; when
  occurrences exist only on lines 2 and 5 the result is two line results, numbered 2 and
  then 5.

  \<^verbatim>\<open>server.js\<close> does not do this for every readable file. The file below has six lines and
  the pattern \<^verbatim>\<open>foo\<close> occurs on lines 2 and 5 only. With the flags \<^verbatim>\<open>i\<close> the line loop passes
  line 1, which has no match, and never leaves line 2: the matching loop of that line does
  not exit, so no line result is ever produced and the single-file search does not return.
  With the flags \<^verbatim>\<open>g\<close> the same file gives the two line results of the claim, as the
  lemma above shows.
\<close>

theorem single_file_scan_never_returns:
  "splitLines (''a'' @ CHR 0x0A # ''foo'' @ CHR 0x0A # ''b'' @ CHR 0x0A # ''c''
                @ CHR 0x0A # ''foo foo'' @ CHR 0x0A # ''d'')
     = [''a'', ''foo'', ''b'', ''c'', ''foo foo'', ''d'']
   \<and> findOccurrences \<lparr>global = False, sticky = False, matcher = literalAt True ''foo''\<rparr> ''a''
       = Some []
   \<and> findOccurrences \<lparr>global = False, sticky = False, matcher = literalAt True ''foo''\<rparr> ''foo''
       = None
   \<and> forEachLine sampleRegExp ''foo'' ''i'' [''a'', ''foo'', ''b'', ''c'', ''foo foo'', ''d''] 0 []
       = None
   \<and> handleRegexSearch
       (sampleEnv (File (Inr (''a'' @ CHR 0x0A # ''foo'' @ CHR 0x0A # ''b'' @ CHR 0x0A # ''c''
                              @ CHR 0x0A # ''foo foo'' @ CHR 0x0A # ''d''))))
       ''foo'' ''proj'' (Some ''i'')
       = None"
proof -
  let ?r = "\<lparr>global = False, sticky = False, matcher = literalAt True ''foo''\<rparr>"
  let ?lines = "[''a'', ''foo'', ''b'', ''c'', ''foo foo'', ''d'']"
  have sp: "splitLines (''a'' @ CHR 0x0A # ''foo'' @ CHR 0x0A # ''b'' @ CHR 0x0A # ''c''
                          @ CHR 0x0A # ''foo foo'' @ CHR 0x0A # ''d'') = ?lines"
    by simp
  have "scanFrom (matcher ?r) False ''a'' 0 = None"
    by (simp add: scanFrom.simps literalAt_def canon_def)
  then have l1: "findOccurrences ?r ''a'' = Some []"
    by (simp add: findOccurrences_nonglobal)
  have "scanFrom (matcher ?r) False ''foo'' 0 = Some (0, 3)"
    by (simp add: scanFrom.simps literalAt_def canon_def)
  then have l2: "findOccurrences ?r ''foo'' = None"
    by (simp add: findOccurrences_nonglobal)
  from l1 l2 have loop: "forEachLine sampleRegExp ''foo'' ''i'' ?lines 0 [] = None"
    by (simp add: sample_foo_i)
  from sp loop
  have "handleRegexSearch
          (sampleEnv (File (Inr (''a'' @ CHR 0x0A # ''foo'' @ CHR 0x0A # ''b'' @ CHR 0x0A # ''c''
                                 @ CHR 0x0A # ''foo foo'' @ CHR 0x0A # ''d''))))
          ''foo'' ''proj'' (Some ''i'') = None"
    by (simp add: handleRegexSearch_def sampleEnv_def existsSync_def sample_foo_i
        del: forEachLine.simps)
  with sp l1 l2 loop show ?thesis by simp
qed

section \<open>Facts about the walk\<close>

lemma forEachFile_nostat:
  "statSync n = Inl msg \<Longrightarrow>
     forEachFile mk pattern exts flags dir ((name, n) # rest) st = Some (Inl msg)"
  by (simp add: Let_def)

lemma forEachFile_enter:
  "isDirectory n \<Longrightarrow> \<not> startsWithDot name \<Longrightarrow> name \<noteq> ''node_modules'' \<Longrightarrow>
     forEachFile mk pattern exts flags dir ((name, n) # rest) st
       = (case searchDirectory mk pattern exts flags (pathJoin dir name) n st of
            None \<Rightarrow> None
          | Some (Inl msg) \<Rightarrow> Some (Inl msg)
          | Some (Inr st') \<Rightarrow> forEachFile mk pattern exts flags dir rest st')"
  by (cases n) (simp_all add: Let_def)

lemma forEachFile_skip:
  "isDirectory n \<Longrightarrow> startsWithDot name \<or> name = ''node_modules'' \<Longrightarrow>
     forEachFile mk pattern exts flags dir ((name, n) # rest) st
       = forEachFile mk pattern exts flags dir rest st"
  by (cases n) (auto simp add: Let_def)

lemma forEachFile_file:
  "isFile n \<Longrightarrow>
     forEachFile mk pattern exts flags dir ((name, n) # rest) st
       = (if extname name \<in> set exts
          then (case tryScanFile mk pattern flags (pathJoin dir name) n st of
                  None \<Rightarrow> None
                | Some st' \<Rightarrow> forEachFile mk pattern exts flags dir rest st')
          else forEachFile mk pattern exts flags dir rest st)"
  by (cases n) (simp_all add: Let_def)

lemma forEachFile_other:
  "forEachFile mk pattern exts flags dir ((name, Other r) # rest) st
     = forEachFile mk pattern exts flags dir rest st"
  by (simp add: Let_def)

lemma walk_invariant:
  "walkInvariant st \<Longrightarrow> searchDirectory mk pattern exts flags dir n st = Some (Inr st')
     \<Longrightarrow> walkInvariant st'"
  "walkInvariant st \<Longrightarrow> forEachFile mk pattern exts flags dir files st = Some (Inr st')
     \<Longrightarrow> walkInvariant st'"
proof (induction mk pattern exts flags dir n st and mk pattern exts flags dir files st
    arbitrary: st' and st' rule: searchDirectory_forEachFile.induct)
  case (1 mk pattern fileExtensions flags dir files st)
  then show ?case by simp
next
  case (2 mk pattern fileExtensions flags dir msg st)
  then show ?case by simp
next
  case (3 mk pattern fileExtensions flags dir r st)
  then show ?case by simp
next
  case (4 mk pattern fileExtensions flags dir r st)
  then show ?case by simp
next
  case (5 mk pattern fileExtensions flags dir msg st)
  then show ?case by simp
next
  case (6 mk pattern fileExtensions flags dir st)
  then show ?case by simp
next
  case (7 mk pattern fileExtensions flags dir name n rest st)
  note inv = \<open>walkInvariant st\<close>
  note run = \<open>forEachFile mk pattern fileExtensions flags dir ((name, n) # rest) st = Some (Inr st')\<close>
  have stat: "statSync n = Inr ()"
    using run by (cases "statSync n") (auto simp: Let_def)
  show ?case
  proof (cases "isDirectory n")
    case True
    show ?thesis
    proof (cases "\<not> startsWithDot name \<and> name \<noteq> ''node_modules''")
      case enter: True
      with run stat True obtain st1 where
        s1: "searchDirectory mk pattern fileExtensions flags (pathJoin dir name) n st = Some (Inr st1)"
        and s2: "forEachFile mk pattern fileExtensions flags dir rest st1 = Some (Inr st')"
        by (auto simp: Let_def split: option.splits sum.splits)
      from "7.IH"(1) [OF refl stat True enter inv s1] have "walkInvariant st1" .
      from "7.IH"(2) [OF refl stat True enter s1 refl this s2] show ?thesis .
    next
      case skip: False
      with run stat True
      have "forEachFile mk pattern fileExtensions flags dir rest st = Some (Inr st')"
        by (auto simp: Let_def)
      from "7.IH"(3) [OF refl stat True skip inv this] show ?thesis .
    qed
  next
    case False
    show ?thesis
    proof (cases "isFile n")
      case isf: True
      show ?thesis
      proof (cases "extname name \<in> set fileExtensions")
        case True
        with run stat False isf obtain st1 where
          s1: "tryScanFile mk pattern flags (pathJoin dir name) n st = Some st1"
          and s2: "forEachFile mk pattern fileExtensions flags dir rest st1 = Some (Inr st')"
          by (auto simp: Let_def split: option.splits)
        from tryScanFile_invariant [OF inv s1] have "walkInvariant st1" .
        from "7.IH"(4) [OF refl stat False isf refl True s1 this s2] show ?thesis .
      next
        case noext: False
        with run stat False isf
        have "forEachFile mk pattern fileExtensions flags dir rest st = Some (Inr st')"
          by (auto simp: Let_def)
        from "7.IH"(5) [OF refl stat False isf refl noext inv this] show ?thesis .
      qed
    next
      case other: False
      with run stat False
      have "forEachFile mk pattern fileExtensions flags dir rest st = Some (Inr st')"
        by (auto simp: Let_def)
      from "7.IH"(6) [OF refl stat False other inv this] show ?thesis .
    qed
  qed
qed

lemma emptySkipped_kind [simp]:
  "statSync (emptySkipped n) = statSync n"
  "isDirectory (emptySkipped n) = isDirectory n"
  "isFile (emptySkipped n) = isFile n"
  "readFileSync (emptySkipped n) = readFileSync n"
  by (cases n; simp)+

lemma dropUnreadable_kind [simp]:
  "statSync (dropUnreadable n) = statSync n"
  "isDirectory (dropUnreadable n) = isDirectory n"
  "isFile (dropUnreadable n) = isFile n"
  "readFileSync (dropUnreadable n) = readFileSync n"
  by (cases n; simp)+

lemma walk_emptySkipped:
  "searchDirectory mk pattern exts flags dir (emptySkipped n) st
     = searchDirectory mk pattern exts flags dir n st"
  "forEachFile mk pattern exts flags dir (emptySkippedIn files) st
     = forEachFile mk pattern exts flags dir files st"
proof (induction mk pattern exts flags dir n st and mk pattern exts flags dir files st
    rule: searchDirectory_forEachFile.induct)
  case (7 mk pattern fileExtensions flags dir name n rest st)
  let ?each = "forEachFile mk pattern fileExtensions flags dir"
  show ?case
  proof (cases "statSync n")
    case (Inl msg)
    then have "\<not> isDirectory n" by (cases n) simp_all
    with Inl show ?thesis by (simp add: forEachFile_nostat)
  next
    case (Inr u)
    then have stat: "statSync n = Inr ()" by simp
    show ?thesis
    proof (cases "isDirectory n")
      case True
      show ?thesis
      proof (cases "\<not> startsWithDot name \<and> name \<noteq> ''node_modules''")
        case enter: True
        let ?sub = "searchDirectory mk pattern fileExtensions flags (pathJoin dir name) n st"
        have sub: "searchDirectory mk pattern fileExtensions flags (pathJoin dir name)
                     (emptySkipped n) st = ?sub"
          by (rule "7.IH"(1) [OF refl stat True enter])
        have rest: "\<And>st1. ?sub = Some (Inr st1) \<Longrightarrow> ?each (emptySkippedIn rest) st1 = ?each rest st1"
          by (rule "7.IH"(2) [OF refl stat True enter _ refl])
        from True enter have "?each (emptySkippedIn ((name, n) # rest)) st
            = (case ?sub of None \<Rightarrow> None | Some (Inl msg) \<Rightarrow> Some (Inl msg)
               | Some (Inr st1) \<Rightarrow> ?each (emptySkippedIn rest) st1)"
          by (simp add: forEachFile_enter sub del: forEachFile.simps)
        also have "\<dots> = (case ?sub of None \<Rightarrow> None | Some (Inl msg) \<Rightarrow> Some (Inl msg)
               | Some (Inr st1) \<Rightarrow> ?each rest st1)"
          using rest by (auto split: option.splits sum.splits)
        also from True enter have "\<dots> = ?each ((name, n) # rest) st"
          by (simp add: forEachFile_enter del: forEachFile.simps)
        finally show ?thesis .
      next
        case skip: False
        then have sk: "startsWithDot name \<or> name = ''node_modules''" by auto
        from True sk have "?each (emptySkippedIn ((name, n) # rest)) st
            = ?each (emptySkippedIn rest) st"
          by (simp add: forEachFile_skip del: forEachFile.simps)
        also have "\<dots> = ?each rest st"
          by (rule "7.IH"(3) [OF refl stat True skip])
        also from True sk have "\<dots> = ?each ((name, n) # rest) st"
          by (simp add: forEachFile_skip del: forEachFile.simps)
        finally show ?thesis .
      qed
    next
      case False
      show ?thesis
      proof (cases "isFile n")
        case isf: True
        let ?scan = "tryScanFile mk pattern flags (pathJoin dir name) n st"
        have scan: "tryScanFile mk pattern flags (pathJoin dir name) (emptySkipped n) st = ?scan"
          by (rule tryScanFile_cong_read) simp
        show ?thesis
        proof (cases "extname name \<in> set fileExtensions")
          case True
          have rest: "\<And>st1. ?scan = Some st1 \<Longrightarrow> ?each (emptySkippedIn rest) st1 = ?each rest st1"
            by (rule "7.IH"(4) [OF refl stat False isf refl True])
          from False isf True have "?each (emptySkippedIn ((name, n) # rest)) st
              = (case ?scan of None \<Rightarrow> None | Some st1 \<Rightarrow> ?each (emptySkippedIn rest) st1)"
            by (simp add: forEachFile_file scan del: forEachFile.simps)
          also have "\<dots> = (case ?scan of None \<Rightarrow> None | Some st1 \<Rightarrow> ?each rest st1)"
            using rest by (auto split: option.splits)
          also from isf True have "\<dots> = ?each ((name, n) # rest) st"
            by (simp add: forEachFile_file del: forEachFile.simps)
          finally show ?thesis .
        next
          case noext: False
          from False isf noext have "?each (emptySkippedIn ((name, n) # rest)) st
              = ?each (emptySkippedIn rest) st"
            by (simp add: forEachFile_file del: forEachFile.simps)
          also have "\<dots> = ?each rest st"
            by (rule "7.IH"(5) [OF refl stat False isf refl noext])
          also from isf noext have "\<dots> = ?each ((name, n) # rest) st"
            by (simp add: forEachFile_file del: forEachFile.simps)
          finally show ?thesis .
        qed
      next
        case other: False
        have r: "?each (emptySkippedIn rest) st = ?each rest st"
          by (rule "7.IH"(6) [OF refl stat False other])
        from False other stat show ?thesis
          by (simp add: Let_def r)
      qed
    qed
  qed
qed simp_all

lemma dropUnreadableIn_keep:
  "\<forall>msg. n \<noteq> File (Inl msg) \<Longrightarrow>
     dropUnreadableIn ((name, n) # rest) = (name, dropUnreadable n) # dropUnreadableIn rest"
  by (cases n) (auto split: sum.splits)

lemma walk_dropUnreadable:
  "searchDirectory mk pattern exts flags dir (dropUnreadable n) st
     = searchDirectory mk pattern exts flags dir n st"
  "forEachFile mk pattern exts flags dir (dropUnreadableIn files) st
     = forEachFile mk pattern exts flags dir files st"
proof (induction mk pattern exts flags dir n st and mk pattern exts flags dir files st
    rule: searchDirectory_forEachFile.induct)
  case (7 mk pattern fileExtensions flags dir name n rest st)
  let ?each = "forEachFile mk pattern fileExtensions flags dir"
  show ?case
  proof (cases "\<exists>msg. n = File (Inl msg)")
    case True
    then obtain msg where n: "n = File (Inl msg)" by blast
    then have stat: "statSync n = Inr ()" and nd: "\<not> isDirectory n" and isf: "isFile n"
      by simp_all
    have scan: "tryScanFile mk pattern flags (pathJoin dir name) n st = Some st"
      unfolding n by (rule tryScanFile_unreadable)
    have "?each (dropUnreadableIn rest) st = ?each rest st"
    proof (cases "extname name \<in> set fileExtensions")
      case True
      show ?thesis by (rule "7.IH"(4) [OF refl stat nd isf refl True scan])
    next
      case False
      show ?thesis by (rule "7.IH"(5) [OF refl stat nd isf refl False])
    qed
    moreover have "?each ((name, n) # rest) st = ?each rest st"
      using isf scan by (simp add: forEachFile_file del: forEachFile.simps)
    moreover have "dropUnreadableIn ((name, n) # rest) = dropUnreadableIn rest"
      by (simp add: n)
    ultimately show ?thesis by simp
  next
    case readable: False
    then have keep: "dropUnreadableIn ((name, n) # rest)
                       = (name, dropUnreadable n) # dropUnreadableIn rest"
      by (intro dropUnreadableIn_keep) simp
    show ?thesis
    proof (cases "statSync n")
      case (Inl msg)
      then show ?thesis unfolding keep by (simp add: forEachFile_nostat del: forEachFile.simps)
    next
      case (Inr u)
      then have stat: "statSync n = Inr ()" by simp
      show ?thesis
      proof (cases "isDirectory n")
        case True
        show ?thesis
        proof (cases "\<not> startsWithDot name \<and> name \<noteq> ''node_modules''")
          case enter: True
          let ?sub = "searchDirectory mk pattern fileExtensions flags (pathJoin dir name) n st"
          have sub: "searchDirectory mk pattern fileExtensions flags (pathJoin dir name)
                       (dropUnreadable n) st = ?sub"
            by (rule "7.IH"(1) [OF refl stat True enter])
          have rest: "\<And>st1. ?sub = Some (Inr st1)
                        \<Longrightarrow> ?each (dropUnreadableIn rest) st1 = ?each rest st1"
            by (rule "7.IH"(2) [OF refl stat True enter _ refl])
          from True enter have "?each ((name, dropUnreadable n) # dropUnreadableIn rest) st
              = (case ?sub of None \<Rightarrow> None | Some (Inl msg) \<Rightarrow> Some (Inl msg)
                 | Some (Inr st1) \<Rightarrow> ?each (dropUnreadableIn rest) st1)"
            by (simp add: forEachFile_enter sub del: forEachFile.simps)
          also have "\<dots> = (case ?sub of None \<Rightarrow> None | Some (Inl msg) \<Rightarrow> Some (Inl msg)
                 | Some (Inr st1) \<Rightarrow> ?each rest st1)"
            using rest by (auto split: option.splits sum.splits)
          also from True enter have "\<dots> = ?each ((name, n) # rest) st"
            by (simp add: forEachFile_enter del: forEachFile.simps)
          finally show ?thesis unfolding keep .
        next
          case skip: False
          then have sk: "startsWithDot name \<or> name = ''node_modules''" by auto
          from True sk have "?each ((name, dropUnreadable n) # dropUnreadableIn rest) st
              = ?each (dropUnreadableIn rest) st"
            by (simp add: forEachFile_skip del: forEachFile.simps)
          also have "\<dots> = ?each rest st"
            by (rule "7.IH"(3) [OF refl stat True skip])
          also from True sk have "\<dots> = ?each ((name, n) # rest) st"
            by (simp add: forEachFile_skip del: forEachFile.simps)
          finally show ?thesis unfolding keep .
        qed
      next
        case False
        show ?thesis
        proof (cases "isFile n")
          case isf: True
          let ?scan = "tryScanFile mk pattern flags (pathJoin dir name) n st"
          have scan: "tryScanFile mk pattern flags (pathJoin dir name) (dropUnreadable n) st = ?scan"
            by (rule tryScanFile_cong_read) simp
          show ?thesis
          proof (cases "extname name \<in> set fileExtensions")
            case True
            have rest: "\<And>st1. ?scan = Some st1
                          \<Longrightarrow> ?each (dropUnreadableIn rest) st1 = ?each rest st1"
              by (rule "7.IH"(4) [OF refl stat False isf refl True])
            from False isf True have "?each ((name, dropUnreadable n) # dropUnreadableIn rest) st
                = (case ?scan of None \<Rightarrow> None | Some st1 \<Rightarrow> ?each (dropUnreadableIn rest) st1)"
              by (simp add: forEachFile_file scan del: forEachFile.simps)
            also have "\<dots> = (case ?scan of None \<Rightarrow> None | Some st1 \<Rightarrow> ?each rest st1)"
              using rest by (auto split: option.splits)
            also from isf True have "\<dots> = ?each ((name, n) # rest) st"
              by (simp add: forEachFile_file del: forEachFile.simps)
            finally show ?thesis unfolding keep .
          next
            case noext: False
            from False isf noext have "?each ((name, dropUnreadable n) # dropUnreadableIn rest) st
                = ?each (dropUnreadableIn rest) st"
              by (simp add: forEachFile_file del: forEachFile.simps)
            also have "\<dots> = ?each rest st"
              by (rule "7.IH"(5) [OF refl stat False isf refl noext])
            also from isf noext have "\<dots> = ?each ((name, n) # rest) st"
              by (simp add: forEachFile_file del: forEachFile.simps)
            finally show ?thesis unfolding keep .
          qed
        next
          case other: False
          have r: "?each (dropUnreadableIn rest) st = ?each rest st"
            by (rule "7.IH"(6) [OF refl stat False other])
          from False other stat show ?thesis unfolding keep
            by (simp add: Let_def r)
        qed
      qed
    qed
  qed
qed simp_all

lemma existsSync_emptySkipped:
  "existsSync (env\<lparr>nodeAt := \<lambda>p. emptySkipped (nodeAt env p)\<rparr>) p = existsSync env p"
  by (cases "nodeAt env p") (simp_all add: existsSync_def)

lemma existsSync_dropUnreadable:
  "existsSync (env\<lparr>nodeAt := \<lambda>p. dropUnreadable (nodeAt env p)\<rparr>) p = existsSync env p"
  by (cases "nodeAt env p") (simp_all add: existsSync_def)

lemma lastDot_none: "CHR ''.'' \<notin> set cs \<Longrightarrow> lastDot cs = None"
  by (induction cs) auto

lemma lastDot_last: "CHR ''.'' \<notin> set cs2 \<Longrightarrow> lastDot (cs1 @ CHR ''.'' # cs2) = Some (length cs1)"
  by (induction cs1) (auto simp: lastDot_none)

lemma extname_leading_dot: "CHR ''.'' \<notin> set cs \<Longrightarrow> extname (CHR ''.'' # cs) = []"
  by (simp add: extname_def lastDot_none)

lemma extname_later_dot:
  assumes "CHR ''.'' \<notin> set cs2" "cs1 @ cs2 \<noteq> []"
  shows "extname (CHR ''.'' # cs1 @ CHR ''.'' # cs2) = CHR ''.'' # cs2"
proof -
  have "lastDot ((CHR ''.'' # cs1) @ CHR ''.'' # cs2) = Some (length (CHR ''.'' # cs1))"
    using assms(1) by (rule lastDot_last)
  moreover have "CHR ''.'' # cs1 @ CHR ''.'' # cs2 \<noteq> ''..''"
  proof
    assume "CHR ''.'' # cs1 @ CHR ''.'' # cs2 = ''..''"
    then have "length (cs1 @ CHR ''.'' # cs2) = 1" by simp
    then have "cs1 = [] \<and> cs2 = []" by simp
    with assms(2) show False by simp
  qed
  ultimately show ?thesis by (simp add: extname_def)
qed

section \<open>Counts in a directory summary\<close>

text \<open>
  Claim C9: in every summary of a directory search, the \<^verbatim>\<open>matchCount\<close> of each file result
  is the sum of the numbers of occurrences over its line results (not the number of matching
  lines), \<^verbatim>\<open>totalMatches\<close> is the sum of \<^verbatim>\<open>matchCount\<close> over the reported file results, and
  a file result is present only for a file with at least one matching line.
\<close>

theorem directory_summary_counts:
  assumes "handleRegexSearchDirectory env pattern dirPath fileExtensionsArg flagsArg
             = Some (Summary sm)"
  shows "list_all (\<lambda>fr. matchCount fr = sum_list (map (\<lambda>lr. length (matches lr)) (results fr))
                        \<and> results fr \<noteq> []
                        \<and> list_all (\<lambda>lr. matches lr \<noteq> []) (results fr)) (d_results sm)
       \<and> totalMatches sm = sum_list (map matchCount (d_results sm))
       \<and> filesMatched sm = length (d_results sm)"
proof -
  let ?exts = "case fileExtensionsArg of None \<Rightarrow> defaultExtensions | Some exts \<Rightarrow> exts"
  let ?flags = "case flagsArg of None \<Rightarrow> ''g'' | Some f \<Rightarrow> f"
  from assms obtain rs tm where
    walk: "searchDirectory (newRegExp env) pattern ?exts ?flags (resolve env dirPath)
             (nodeAt env (resolve env dirPath)) ([], 0) = Some (Inr (rs, tm))"
    and sm: "sm = \<lparr>directory = resolve env dirPath, d_pattern = pattern, d_flags = ?flags,
                   extensions = ?exts, filesMatched = length rs, totalMatches = tm,
                   d_results = rs\<rparr>"
    by (auto simp: handleRegexSearchDirectory_def Let_def split: if_splits option.splits sum.splits)
  have "walkInvariant ([], 0)" by (simp add: walkInvariant_def)
  from walk_invariant(1) [OF this walk] sm show ?thesis
    by (simp add: walkInvariant_def)
qed

theorem directory_summary_counts_witness:
  "handleRegexSearchDirectory
     (sampleEnv (Dir [(''a.txt'', File (Inr ''foo bar foo'')),
                      (''b.txt'', File (Inr ''bar'')),
                      (''c.md'', File (Inr ''a foo''))]))
     ''foo'' ''proj'' None None
   = Some (Summary \<lparr>directory = ''/w/proj'', d_pattern = ''foo'', d_flags = ''g'',
       extensions = defaultExtensions, filesMatched = 2, totalMatches = 3,
       d_results =
         [\<lparr>file_ = ''/w/proj/a.txt'', matchCount = 2,
            results = [\<lparr>lineNumber = 1, content = ''foo bar foo'',
              matches = [\<lparr>matchText = ''foo'', column = 1\<rparr>, \<lparr>matchText = ''foo'', column = 9\<rparr>]\<rparr>]\<rparr>,
          \<lparr>file_ = ''/w/proj/c.md'', matchCount = 1,
            results = [\<lparr>lineNumber = 1, content = ''a foo'',
              matches = [\<lparr>matchText = ''foo'', column = 3\<rparr>]\<rparr>]\<rparr>]\<rparr>)"
proof -
  let ?env = "sampleEnv (Dir [(''a.txt'', File (Inr ''foo bar foo'')),
                      (''b.txt'', File (Inr ''bar'')),
                      (''c.md'', File (Inr ''a foo''))])"
  have run: "handleRegexSearchDirectory ?env ''foo'' ''proj'' None None
      = Some (Summary \<lparr>directory = ''/w/proj'', d_pattern = ''foo'', d_flags = ''g'',
       extensions = defaultExtensions, filesMatched = 2, totalMatches = 3,
       d_results =
         [\<lparr>file_ = ''/w/proj/a.txt'', matchCount = 2,
            results = [\<lparr>lineNumber = 1, content = ''foo bar foo'',
              matches = [\<lparr>matchText = ''foo'', column = 1\<rparr>, \<lparr>matchText = ''foo'', column = 9\<rparr>]\<rparr>]\<rparr>,
          \<lparr>file_ = ''/w/proj/c.md'', matchCount = 1,
            results = [\<lparr>lineNumber = 1, content = ''a foo'',
              matches = [\<lparr>matchText = ''foo'', column = 3\<rparr>]\<rparr>]\<rparr>]\<rparr>)"
    by (simp add: run_simps)
  from directory_summary_counts [OF run] run show ?thesis by simp
qed

section \<open>Regular files whose name begins with a dot\<close>

text \<open>
  Claim C10: the leading-dot skip applies to directories only. A regular file whose name
  begins with a dot is scanned exactly when its extension is in the accepted set, the
  extension being the suffix from the last dot, and empty when the only dot is the leading
  one: \<^verbatim>\<open>.hidden.js\<close> has the extension \<^verbatim>\<open>.js\<close> and is scanned, a file named \<^verbatim>\<open>.js\<close> has
  the empty extension and is not.

  The first conjunct is the callback on a regular file of any name: only \<^verbatim>\<open>extname\<close> and the
  accepted set decide. The next two give the extension of a name with a leading dot. The
  last ones are the two names of the claim against the default set, which holds \<^verbatim>\<open>.js\<close>
  and not the empty string.
\<close>

theorem dot_files_follow_extension:
  "forEachFile mk pattern exts flags dir ((name, File r) # rest) st
     = (if extname name \<in> set exts
        then (case tryScanFile mk pattern flags (pathJoin dir name) (File r) st of
                None \<Rightarrow> None
              | Some st' \<Rightarrow> forEachFile mk pattern exts flags dir rest st')
        else forEachFile mk pattern exts flags dir rest st)
   \<and> (CHR ''.'' \<notin> set cs \<longrightarrow> extname (CHR ''.'' # cs) = [])
   \<and> (CHR ''.'' \<notin> set cs2 \<and> cs1 @ cs2 \<noteq> []
        \<longrightarrow> extname (CHR ''.'' # cs1 @ CHR ''.'' # cs2) = CHR ''.'' # cs2)
   \<and> extname ''.hidden.js'' = ''.js'' \<and> extname ''.js'' = []
   \<and> ''.js'' \<in> set defaultExtensions \<and> [] \<notin> set defaultExtensions"
proof -
  have "extname ''.hidden.js'' = ''.js''" "extname ''.js'' = []"
    by (simp_all add: extname_def)
  moreover have "''.js'' \<in> set defaultExtensions" "[] \<notin> set defaultExtensions"
    by (simp_all add: defaultExtensions_def)
  ultimately show ?thesis
    by (simp add: extname_leading_dot extname_later_dot Let_def)
qed

theorem dot_files_follow_extension_witness:
  "handleRegexSearchDirectory
     (sampleEnv (Dir [(''.js'', File (Inr ''foo'')), (''.hidden.js'', File (Inr ''foo''))]))
     ''foo'' ''proj'' None None
   = Some (Summary \<lparr>directory = ''/w/proj'', d_pattern = ''foo'', d_flags = ''g'',
      extensions = defaultExtensions, filesMatched = 1, totalMatches = 1,
      d_results = [\<lparr>file_ = ''/w/proj/.hidden.js'', matchCount = 1,
         results = [\<lparr>lineNumber = 1, content = ''foo'',
                     matches = [\<lparr>matchText = ''foo'', column = 1\<rparr>]\<rparr>]\<rparr>]\<rparr>)"
  using dot_files_follow_extension [of sampleRegExp "''foo''" defaultExtensions "''g''" "''/w/proj''" "''.js''" "Inr ''foo''"
      "[(''.hidden.js'', File (Inr ''foo''))]" "([], 0)" "''js''" "''hidden''" "''js''"]
  by (simp add: run_simps)

section \<open>Hidden directories and node_modules\<close>

text \<open>
  Claim C6: the walk never descends into a directory whose name begins with a dot or into
  a directory named \<^verbatim>\<open>node_modules\<close>, even when it holds files with accepted extensions; no
  file under such a directory contributes to the results.

  The walk gives the same answer on a tree and on the tree in which every such directory
  entry, at every depth, has been emptied: whatever is below them (matching files,
  unreadable directories, dangling links) is never looked at. The last conjunct is the step
  itself: such an entry is passed over. The test is made on the entries the walk meets, not
  on the root the caller names.
\<close>

theorem skipped_directories_do_not_contribute:
  "handleRegexSearchDirectory (env\<lparr>nodeAt := \<lambda>p. emptySkipped (nodeAt env p)\<rparr>)
       pattern dirPath fileExtensionsArg flagsArg
     = handleRegexSearchDirectory env pattern dirPath fileExtensionsArg flagsArg
   \<and> searchDirectory mk pattern exts flags dir (emptySkipped n) st
     = searchDirectory mk pattern exts flags dir n st
   \<and> (isDirectory d \<and> (startsWithDot name \<or> name = ''node_modules'')
        \<longrightarrow> forEachFile mk pattern exts flags dir ((name, d) # rest) st
            = forEachFile mk pattern exts flags dir rest st)"
  by (simp add: handleRegexSearchDirectory_def Let_def existsSync_emptySkipped walk_emptySkipped(1)
      forEachFile_skip del: forEachFile.simps)

theorem skipped_directories_do_not_contribute_witness:
  "handleRegexSearchDirectory
     (sampleEnv (Dir [(''a.txt'', File (Inr ''foo bar foo'')),
                      (''.git'', Dir [(''x.js'', File (Inr ''foo''))]),
                      (''node_modules'', Dir [(''y.js'', File (Inr ''foo''))]),
                      (''sub'', Dir [(''.cache'', DirDenied ''EACCES: permission denied, scandir''),
                                    (''b.md'', File (Inr ''a foo''))])]))
     ''foo'' ''proj'' None None
   = Some (Summary \<lparr>directory = ''/w/proj'', d_pattern = ''foo'', d_flags = ''g'',
       extensions = defaultExtensions, filesMatched = 2, totalMatches = 3,
       d_results =
         [\<lparr>file_ = ''/w/proj/a.txt'', matchCount = 2,
            results = [\<lparr>lineNumber = 1, content = ''foo bar foo'',
              matches = [\<lparr>matchText = ''foo'', column = 1\<rparr>, \<lparr>matchText = ''foo'', column = 9\<rparr>]\<rparr>]\<rparr>,
          \<lparr>file_ = ''/w/proj/sub/b.md'', matchCount = 1,
            results = [\<lparr>lineNumber = 1, content = ''a foo'',
              matches = [\<lparr>matchText = ''foo'', column = 3\<rparr>]\<rparr>]\<rparr>]\<rparr>)
   \<and> emptySkipped (Dir [(''a.txt'', File (Inr ''foo bar foo'')),
                      (''.git'', Dir [(''x.js'', File (Inr ''foo''))]),
                      (''node_modules'', Dir [(''y.js'', File (Inr ''foo''))]),
                      (''sub'', Dir [(''.cache'', DirDenied ''EACCES: permission denied, scandir''),
                                    (''b.md'', File (Inr ''a foo''))])])
     = Dir [(''a.txt'', File (Inr ''foo bar foo'')), (''.git'', Dir []), (''node_modules'', Dir []),
            (''sub'', Dir [(''.cache'', Dir []), (''b.md'', File (Inr ''a foo''))])]"
  using skipped_directories_do_not_contribute [where env = "sampleEnv (Dir [(''a.txt'', File (Inr ''foo bar foo'')),
                      (''.git'', Dir [(''x.js'', File (Inr ''foo''))]),
                      (''node_modules'', Dir [(''y.js'', File (Inr ''foo''))]),
                      (''sub'', Dir [(''.cache'', DirDenied ''EACCES: permission denied, scandir''),
                                    (''b.md'', File (Inr ''a foo''))])])"
      and pattern = "''foo''" and dirPath = "''proj''" and fileExtensionsArg = None and flagsArg = None
      and d = "Dir [(''x.js'', File (Inr ''foo''))]" and name = "''.git''" and rest = "[]"
      and mk = sampleRegExp and exts = defaultExtensions and flags = "''g''" and dir = "''/w/proj''"
      and st = "([], 0)" and n = "Dir []"]
  by (simp add: run_simps)

section \<open>Files that cannot be read\<close>

text \<open>
  Claim C7: when reading an eligible file fails during a directory search, the walk skips
  that file silently and goes on: the file results are those of the readable files,
  \<^verbatim>\<open>totalMatches\<close> does not count the unreadable file, and the failure is not reported.

  The search gives the same answer on a tree and on the tree from which every unreadable
  regular file has been removed. The last conjunct is the step itself: such an entry leaves
  the results and the counter as they were.
\<close>

theorem unreadable_files_are_skipped:
  "handleRegexSearchDirectory (env\<lparr>nodeAt := \<lambda>p. dropUnreadable (nodeAt env p)\<rparr>)
       pattern dirPath fileExtensionsArg flagsArg
     = handleRegexSearchDirectory env pattern dirPath fileExtensionsArg flagsArg
   \<and> searchDirectory mk pattern exts flags dir (dropUnreadable n) st
     = searchDirectory mk pattern exts flags dir n st
   \<and> forEachFile mk pattern exts flags dir ((name, File (Inl msg)) # rest) st
     = forEachFile mk pattern exts flags dir rest st"
  by (simp add: handleRegexSearchDirectory_def Let_def existsSync_dropUnreadable walk_dropUnreadable(1)
      forEachFile_file tryScanFile_unreadable del: forEachFile.simps)

theorem unreadable_files_are_skipped_witness:
  "handleRegexSearchDirectory
     (sampleEnv (Dir [(''a.txt'', File (Inr ''foo bar foo'')),
                      (''bad.txt'', File (Inl ''EACCES: permission denied, open'')),
                      (''c.md'', File (Inr ''a foo''))]))
     ''foo'' ''proj'' None None
   = Some (Summary \<lparr>directory = ''/w/proj'', d_pattern = ''foo'', d_flags = ''g'',
       extensions = defaultExtensions, filesMatched = 2, totalMatches = 3,
       d_results =
         [\<lparr>file_ = ''/w/proj/a.txt'', matchCount = 2,
            results = [\<lparr>lineNumber = 1, content = ''foo bar foo'',
              matches = [\<lparr>matchText = ''foo'', column = 1\<rparr>, \<lparr>matchText = ''foo'', column = 9\<rparr>]\<rparr>]\<rparr>,
          \<lparr>file_ = ''/w/proj/c.md'', matchCount = 1,
            results = [\<lparr>lineNumber = 1, content = ''a foo'',
              matches = [\<lparr>matchText = ''foo'', column = 3\<rparr>]\<rparr>]\<rparr>]\<rparr>)
   \<and> dropUnreadable (Dir [(''a.txt'', File (Inr ''foo bar foo'')),
                      (''bad.txt'', File (Inl ''EACCES: permission denied, open'')),
                      (''c.md'', File (Inr ''a foo''))])
     = Dir [(''a.txt'', File (Inr ''foo bar foo'')), (''c.md'', File (Inr ''a foo''))]"
  using unreadable_files_are_skipped [where env = "sampleEnv (Dir [(''a.txt'', File (Inr ''foo bar foo'')),
                      (''bad.txt'', File (Inl ''EACCES: permission denied, open'')),
                      (''c.md'', File (Inr ''a foo''))])"
      and pattern = "''foo''" and dirPath = "''proj''" and fileExtensionsArg = None and flagsArg = None
      and mk = sampleRegExp and exts = defaultExtensions and flags = "''g''" and dir = "''/w/proj''"
      and st = "([], 0)" and n = "Dir []" and name = "''bad.txt''" and msg = "''EACCES''" and rest = "[]"]
  by (simp add: run_simps)

end
